theory Spec2Isabelle
  imports Main "HOL-Library.Word"
begin

section \<open>The component version controller\<close>

text \<open>
  A shallow embedding of \<^verbatim>\<open>controllers/componentversion_controller.go\<close>:
  \<^verbatim>\<open>Reconcile\<close>, \<^verbatim>\<open>reconcile\<close>, \<^verbatim>\<open>parseReferences\<close> and
  \<^verbatim>\<open>constructComponentName\<close>. The cluster is an explicit state that every call
  takes and returns; every Go error return is a value; the recursion over the
  reference graph, which the code does not bound, returns \<open>None\<close> when it does not
  return.
\<close>

subsection \<open>Errors and results\<close>

text \<open>
  A Go \<^verbatim>\<open>error\<close>. \<open>NotFound\<close> and \<open>AlreadyExists\<close> are the API status errors the
  client answers with, \<open>Failure\<close> is any other error of an external capability,
  \<open>Errorf msg\<close> is \<^verbatim>\<open>fmt.Errorf(msg)\<close> and \<open>Wrapf msg e\<close> is
  \<^verbatim>\<open>fmt.Errorf(msg + ": %w", e)\<close>. \<open>NilDereference\<close> is the panic of the Go run time at
  a method call on a nil interface value (\<^verbatim>\<open>invalid memory address or nil pointer
  dereference\<close>). It is not returned: no function of the controller recovers from it, so
  it passes every caller as it is, unwrapped, and no result comes with it.
\<close>

datatype error =
  NotFound | AlreadyExists | Failure string | Errorf string | Wrapf string error | NilDereference

text \<open>\<^verbatim>\<open>ctrl.Result\<close>; \<^verbatim>\<open>ctrl.Result{}\<close> is \<open>\<lparr>Requeue = False, RequeueAfter = 0\<rparr>\<close>.\<close>

record Result =
  Requeue :: bool
  RequeueAfter :: int

subsection \<open>Data model\<close>

text \<open>\<^verbatim>\<open>v1.Identity\<close> is a Go \<^verbatim>\<open>map[string]string\<close>; the nil map is the empty map.\<close>

type_synonym Identity = "string \<rightharpoonup> string"

text \<open>\<^verbatim>\<open>types.NamespacedName\<close>, the key of an object in the cluster: namespace and name.\<close>

type_synonym NamespacedName = "string \<times> string"

text \<open>
  \<^verbatim>\<open>v1alpha1.Reference\<close>, the tree written to the status of the root (the fields of
  \<^verbatim>\<open>status.componentDescriptor\<close> in the CRD). \<open>ComponentDescriptorRef\<close> is the
  \<^verbatim>\<open>meta.NamespacedObjectReference\<close> of the persisted descriptor.
\<close>

datatype Reference = Reference
  (Name: string) (Version: string) (References: "Reference list")
  (ExtraIdentity: Identity) (ComponentDescriptorRef: NamespacedName)

text \<open>
  \<^verbatim>\<open>ocmdesc.ComponentReference\<close>: the element meta data (name, version, extra
  identity) and the name of the referenced component. Labels and digest are not read
  by the controller.
\<close>

record ComponentReference =
  ref_Name :: string
  ref_Version :: string
  ref_ExtraIdentity :: Identity
  ref_ComponentName :: string

text \<open>
  \<^verbatim>\<open>ocmdesc.ComponentDescriptor\<close>, what \<^verbatim>\<open>GetDescriptor()\<close> of a fetched component
  version returns. The controller reads its references; everything else (provider,
  resources, sources) is the opaque content \<open>'p\<close> that the conversion carries over.
\<close>

record 'p ocm_ComponentDescriptor =
  cd_Name :: string
  cd_Version :: string
  cd_References :: "ComponentReference list"
  cd_Content :: 'p

text \<open>
  The \<^verbatim>\<open>v3alpha1\<close> descriptor that \<^verbatim>\<open>ConvertFrom\<close> returns: \<^verbatim>\<open>GetName()\<close>,
  \<^verbatim>\<open>GetVersion()\<close> and the \<^verbatim>\<open>Spec\<close> payload.
\<close>

record 'p v3_ComponentDescriptor =
  v3_Name :: string
  v3_Version :: string
  v3_Spec :: 'p

text \<open>\<^verbatim>\<open>metav1.OwnerReference\<close>.\<close>

record OwnerReference =
  or_APIVersion :: string
  or_Kind :: string
  or_Name :: string
  or_UID :: string

text \<open>
  \<^verbatim>\<open>v1alpha1.ComponentDescriptorSpec\<close>. The payload of a descriptor that was built
  without a spec (the Go zero value) is \<open>None\<close>.
\<close>

record 'p ComponentDescriptorSpec =
  cds_ComponentVersionSpec :: "'p option"
  cds_Version :: string

text \<open>
  \<^verbatim>\<open>v1alpha1.ComponentDescriptor\<close>, the persisted graph node, with the fields of its
  \<^verbatim>\<open>ObjectMeta\<close> the controller sets or reads. The creation timestamp is \<open>None\<close>
  while \<^verbatim>\<open>CreationTimestamp.IsZero()\<close>.
\<close>

record 'p ComponentDescriptor =
  d_Namespace :: string
  d_Name :: string
  d_CreationTimestamp :: "nat option"
  d_OwnerReferences :: "OwnerReference list"
  d_Spec :: "'p ComponentDescriptorSpec"

text \<open>
  \<^verbatim>\<open>v1alpha1.ComponentVersion\<close>, the root object, with the fields of the CRD
  \<^verbatim>\<open>delivery.ocm.software_componentversions.yaml\<close>: the interval is a
  \<^verbatim>\<open>time.Duration\<close>, each entry of \<open>spec_Verify\<close> a signature name and the
  secret of its public key.
\<close>

record ComponentVersion =
  cv_Namespace :: string
  cv_Name :: string
  cv_UID :: string
  spec_Interval :: int
  spec_Component :: string
  spec_Version :: string
  spec_Repository_URL :: string
  spec_Repository_SecretRef :: string
  spec_Verify :: "(string \<times> string) list"
  spec_References_Expand :: bool
  status_ComponentDescriptor :: Reference
  status_Verified :: bool

text \<open>The anonymous struct that \<^verbatim>\<open>constructComponentName\<close> hashes.\<close>

record namingScheme =
  ns_componentName :: string
  ns_version :: string
  ns_identity :: Identity

subsection \<open>The cluster and the external capabilities\<close>

text \<open>
  Every call the controller makes to the API server or to the OCM client, in the order
  it is made.
\<close>

datatype call =
    GetRoot NamespacedName
  | Verify NamespacedName
  | Fetch string string
  | Get NamespacedName
  | Create NamespacedName
  | Update NamespacedName
  | PatchStatus NamespacedName

text \<open>
  The state of the cluster: the stored root objects, the stored component descriptors,
  and the calls made so far.
\<close>

record 'p cluster =
  componentVersions :: "NamespacedName \<rightharpoonup> ComponentVersion"
  componentDescriptors :: "NamespacedName \<rightharpoonup> 'p ComponentDescriptor"
  calls :: "call list"

text \<open>
  What the reconciler is configured with and cannot decide itself. \<open>VerifyComponent\<close>
  and \<open>GetComponentVersion\<close> are the two methods of \<^verbatim>\<open>ocmclient.FetchVerifier\<close>. A
  fetched component version is represented by its descriptor; \<open>GetComponentVersion\<close>
  answers with an error, or with no error and a \<^verbatim>\<open>ocm.ComponentVersionAccess\<close>, which
  is an interface value and may be nil (\<open>None\<close>). \<open>ConvertFrom\<close> is the
  conversion of \<^verbatim>\<open>compdesc.DescriptorVersion\<close>. \<open>Scheme\<close> holds the API version and
  kind that \<^verbatim>\<open>r.Scheme\<close> registers for the root type, if any, and \<open>Now\<close> is the
  clock of the API server. The remaining fields say which calls of the client fail for
  reasons outside the controller (transport, conflicts), and with which message.
\<close>

record 'p env =
  VerifyComponent :: "ComponentVersion \<Rightarrow> bool \<times> error option"
  GetComponentVersion ::
    "ComponentVersion \<Rightarrow> string \<Rightarrow> string \<Rightarrow> error + 'p ocm_ComponentDescriptor option"
  ConvertFrom :: "'p ocm_ComponentDescriptor \<Rightarrow> error + 'p v3_ComponentDescriptor"
  Scheme :: "(string \<times> string) option"
  Now :: nat
  GetRootErr :: "NamespacedName \<Rightarrow> string option"
  GetErr :: "NamespacedName \<Rightarrow> string option"
  CreateErr :: "NamespacedName \<Rightarrow> string option"
  UpdateErr :: "NamespacedName \<Rightarrow> string option"
  NewHelperErr :: "string option"
  PatchErr :: "NamespacedName \<Rightarrow> string option"

definition record_call :: "call \<Rightarrow> 'p cluster \<Rightarrow> 'p cluster" where
  "record_call c st = st\<lparr>calls := calls st @ [c]\<rparr>"

subsection \<open>The client\<close>

text \<open>
  \<^verbatim>\<open>client.Get\<close> at a root object and at a component descriptor: the stored object,
  \<open>NotFound\<close> when there is none.
\<close>

definition client_GetRoot ::
  "'p env \<Rightarrow> NamespacedName \<Rightarrow> 'p cluster \<Rightarrow> 'p cluster \<times> (error + ComponentVersion)" where
  "client_GetRoot env key st =
    (let st1 = record_call (GetRoot key) st in
     case GetRootErr env key of
       Some msg \<Rightarrow> (st1, Inl (Failure msg))
     | None \<Rightarrow>
        (case componentVersions st key of
           None \<Rightarrow> (st1, Inl NotFound)
         | Some obj \<Rightarrow> (st1, Inr obj)))"

definition client_Get ::
  "'p env \<Rightarrow> NamespacedName \<Rightarrow> 'p cluster \<Rightarrow> 'p cluster \<times> (error + 'p ComponentDescriptor)" where
  "client_Get env key st =
    (let st1 = record_call (Get key) st in
     case GetErr env key of
       Some msg \<Rightarrow> (st1, Inl (Failure msg))
     | None \<Rightarrow>
        (case componentDescriptors st key of
           None \<Rightarrow> (st1, Inl NotFound)
         | Some obj \<Rightarrow> (st1, Inr obj)))"

text \<open>
  \<^verbatim>\<open>client.Create\<close>: the API server stores the object under its key and stamps its
  creation time. \<^verbatim>\<open>client.Update\<close> replaces the stored object.
\<close>

definition client_Create ::
  "'p env \<Rightarrow> 'p ComponentDescriptor \<Rightarrow> 'p cluster \<Rightarrow> 'p cluster \<times> (error + 'p ComponentDescriptor)" where
  "client_Create env obj st =
    (let key = (d_Namespace obj, d_Name obj);
         st1 = record_call (Create key) st in
     case CreateErr env key of
       Some msg \<Rightarrow> (st1, Inl (Failure msg))
     | None \<Rightarrow>
        (case componentDescriptors st key of
           Some existing \<Rightarrow> (st1, Inl AlreadyExists)
         | None \<Rightarrow>
            (let stored = obj\<lparr>d_CreationTimestamp := Some (Now env)\<rparr> in
             (st1\<lparr>componentDescriptors := (componentDescriptors st1)(key \<mapsto> stored)\<rparr>,
              Inr stored))))"

definition client_Update ::
  "'p env \<Rightarrow> 'p ComponentDescriptor \<Rightarrow> 'p cluster \<Rightarrow> 'p cluster \<times> (error + 'p ComponentDescriptor)" where
  "client_Update env obj st =
    (let key = (d_Namespace obj, d_Name obj);
         st1 = record_call (Update key) st in
     case UpdateErr env key of
       Some msg \<Rightarrow> (st1, Inl (Failure msg))
     | None \<Rightarrow>
        (case componentDescriptors st key of
           None \<Rightarrow> (st1, Inl NotFound)
         | Some existing \<Rightarrow>
            (st1\<lparr>componentDescriptors := (componentDescriptors st1)(key \<mapsto> obj)\<rparr>, Inr obj)))"

subsection \<open>controllerutil\<close>

datatype OperationResult = OperationResultNone | OperationResultCreated | OperationResultUpdated

text \<open>
  \<^verbatim>\<open>controllerutil.mutate\<close>: runs the mutate function and refuses a change of the
  object's key.
\<close>

definition mutate ::
  "('p ComponentDescriptor \<Rightarrow> error + 'p ComponentDescriptor) \<Rightarrow> NamespacedName \<Rightarrow>
   'p ComponentDescriptor \<Rightarrow> error + 'p ComponentDescriptor" where
  "mutate f key obj =
    (case f obj of
       Inl e \<Rightarrow> Inl e
     | Inr obj' \<Rightarrow>
        (if (d_Namespace obj', d_Name obj') \<noteq> key
         then Inl (Errorf ''MutateFn cannot mutate object name and/or object namespace'')
         else Inr obj'))"

text \<open>
  \<^verbatim>\<open>controllerutil.CreateOrUpdate\<close>: reads the object under the key of \<open>obj\<close>. When
  there is none, \<open>obj\<close> is mutated and created. When there is one, it replaces \<open>obj\<close>,
  is mutated, and is written back only if the mutation changed it
  (\<^verbatim>\<open>equality.Semantic.DeepEqual\<close>). The result carries the object as the caller's
  pointer holds it afterwards.
\<close>

definition CreateOrUpdate ::
  "'p env \<Rightarrow> 'p ComponentDescriptor \<Rightarrow> ('p ComponentDescriptor \<Rightarrow> error + 'p ComponentDescriptor) \<Rightarrow>
   'p cluster \<Rightarrow> 'p cluster \<times> (error + OperationResult \<times> 'p ComponentDescriptor)" where
  "CreateOrUpdate env obj f st =
    (let key = (d_Namespace obj, d_Name obj) in
     case client_Get env key st of
       (st1, Inl e) \<Rightarrow>
        (if e \<noteq> NotFound then (st1, Inl e)
         else (case mutate f key obj of
                 Inl e1 \<Rightarrow> (st1, Inl e1)
               | Inr obj1 \<Rightarrow>
                  (case client_Create env obj1 st1 of
                     (st2, Inl e2) \<Rightarrow> (st2, Inl e2)
                   | (st2, Inr created) \<Rightarrow> (st2, Inr (OperationResultCreated, created)))))
     | (st1, Inr existing) \<Rightarrow>
        (case mutate f key existing of
           Inl e1 \<Rightarrow> (st1, Inl e1)
         | Inr obj1 \<Rightarrow>
            (if existing = obj1 then (st1, Inr (OperationResultNone, obj1))
             else (case client_Update env obj1 st1 of
                     (st2, Inl e2) \<Rightarrow> (st2, Inl e2)
                   | (st2, Inr updated) \<Rightarrow> (st2, Inr (OperationResultUpdated, updated))))))"

text \<open>
  \<^verbatim>\<open>controllerutil.SetOwnerReference\<close>: the owner is validated (an owner in a
  namespace owns only objects of that namespace), its API version and kind are looked up
  in the scheme, and the reference is put into the owner references of the object:
  in the place of a reference to the same object (same group, kind and name) if there
  is one, at the end otherwise.
\<close>

definition validateOwner :: "ComponentVersion \<Rightarrow> 'p ComponentDescriptor \<Rightarrow> error option" where
  "validateOwner owner object =
    (if cv_Namespace owner \<noteq> [] then
       (if d_Namespace object = []
        then Some (Errorf ''cluster-scoped resource must not have a namespace-scoped owner'')
        else if cv_Namespace owner \<noteq> d_Namespace object
        then Some (Errorf ''cross-namespace owner references are disallowed'')
        else None)
     else None)"

definition group_of :: "string \<Rightarrow> string" where
  "group_of apiVersion =
    (if CHR ''/'' \<in> set apiVersion then takeWhile (\<lambda>c. c \<noteq> CHR ''/'') apiVersion else [])"

definition referSameObject :: "OwnerReference \<Rightarrow> OwnerReference \<Rightarrow> bool" where
  "referSameObject a b \<longleftrightarrow>
     group_of (or_APIVersion a) = group_of (or_APIVersion b) \<and> or_Kind a = or_Kind b \<and>
     or_Name a = or_Name b"

fun upsertOwnerRef :: "OwnerReference \<Rightarrow> OwnerReference list \<Rightarrow> OwnerReference list" where
  "upsertOwnerRef ref [] = [ref]"
| "upsertOwnerRef ref (r # owners) =
     (if referSameObject r ref then ref # owners else r # upsertOwnerRef ref owners)"

definition SetOwnerReference ::
  "'p env \<Rightarrow> ComponentVersion \<Rightarrow> 'p ComponentDescriptor \<Rightarrow> error + 'p ComponentDescriptor" where
  "SetOwnerReference env owner object =
    (case validateOwner owner object of
       Some e \<Rightarrow> Inl e
     | None \<Rightarrow>
        (case Scheme env of
           None \<Rightarrow> Inl (Failure ''no kind is registered for the type of the owner'')
         | Some (apiVersion, kind) \<Rightarrow>
            Inr (object\<lparr>d_OwnerReferences :=
                   upsertOwnerRef
                     \<lparr>or_APIVersion = apiVersion, or_Kind = kind, or_Name = cv_Name owner,
                      or_UID = cv_UID owner\<rparr>
                     (d_OwnerReferences object)\<rparr>)))"

subsection \<open>The patch helper\<close>

text \<open>
  \<^verbatim>\<open>patch.NewHelper\<close> keeps a copy of the object as it is when the helper is made.
  \<^verbatim>\<open>Helper.Patch\<close> sends the difference between that copy and the object: here the
  \<^verbatim>\<open>componentDescriptor\<close> field of the status, the only field the controller changes,
  merged onto the stored object. Nothing is sent when nothing changed.
\<close>

definition NewHelper :: "'p env \<Rightarrow> ComponentVersion \<Rightarrow> error + ComponentVersion" where
  "NewHelper env obj =
    (case NewHelperErr env of Some msg \<Rightarrow> Inl (Failure msg) | None \<Rightarrow> Inr obj)"

definition Patch ::
  "'p env \<Rightarrow> ComponentVersion \<Rightarrow> ComponentVersion \<Rightarrow> 'p cluster \<Rightarrow> 'p cluster \<times> error option" where
  "Patch env before obj st =
    (if before = obj then (st, None)
     else
       (let key = (cv_Namespace obj, cv_Name obj);
            st1 = record_call (PatchStatus key) st in
        case PatchErr env key of
          Some msg \<Rightarrow> (st1, Some (Failure msg))
        | None \<Rightarrow>
           (case componentVersions st key of
              None \<Rightarrow> (st1, Some NotFound)
            | Some stored \<Rightarrow>
               (st1\<lparr>componentVersions := (componentVersions st1)
                      (key \<mapsto> stored\<lparr>status_ComponentDescriptor := status_ComponentDescriptor obj\<rparr>)\<rparr>,
                None))))"

subsection \<open>hashstructure\<close>

text \<open>
  \<^verbatim>\<open>hash/fnv\<close>, the hasher \<^verbatim>\<open>hashstructure.Hash\<close> takes when it is given no
  options: FNV-1a of 64 bits. With nothing written the sum is the offset basis.
\<close>

unbundle bit_operations_syntax

definition offset64 :: "64 word" where
  "offset64 = 14695981039346656037"

definition prime64 :: "64 word" where
  "prime64 = 1099511628211"

definition fnv64a :: "8 word list \<Rightarrow> 64 word" where
  "fnv64a bytes = foldl (\<lambda>h b. (h XOR ucast b) * prime64) offset64 bytes"

text \<open>
  The walker of \<^verbatim>\<open>hashstructure\<close> (github.com/mitchellh/hashstructure) at the kinds
  of value that reach it here. A string is hashed as its bytes. Two hashes are combined
  in order by hashing their sixteen bytes (little endian), and out of order by
  exclusive or. A map is the combination, out of order, of one hash per entry.
\<close>

definition visitString :: "string \<Rightarrow> 64 word" where
  "visitString s = fnv64a (map of_char s)"

definition littleEndian :: "64 word \<Rightarrow> 8 word list" where
  "littleEndian w = map (\<lambda>i. ucast (drop_bit (8 * i) w)) [0..<8]"

definition hashUpdateOrdered :: "64 word \<Rightarrow> 64 word \<Rightarrow> 64 word" where
  "hashUpdateOrdered a b = fnv64a (littleEndian a @ littleEndian b)"

definition hashUpdateUnordered :: "64 word \<Rightarrow> 64 word \<Rightarrow> 64 word" where
  "hashUpdateUnordered a b = a XOR b"

definition visitMap :: "Identity \<Rightarrow> 64 word" where
  "visitMap m =
     Finite_Set.fold
       (\<lambda>k h. hashUpdateUnordered h (hashUpdateOrdered (visitString k) (visitString (the (m k)))))
       0 (dom m)"

text \<open>
  A struct is hashed as the name of its type, and into that hash goes, out of order,
  one hash per field: of the name of the field and of its value. Only an exported
  field counts. A field that is not exported \<^emph>\<open>its name does not begin with an upper
  case letter, so that \<^verbatim>\<open>reflect\<close> gives it a package path\<close> is passed over before its
  value is looked at (\<^verbatim>\<open>if fieldType.PkgPath != "" { continue }\<close>). A field is given
  here by its name and the hash of its value.
\<close>

definition exported :: "string \<Rightarrow> bool" where
  "exported name \<longleftrightarrow>
     (case name of [] \<Rightarrow> False | c # cs \<Rightarrow> c \<in> set ''ABCDEFGHIJKLMNOPQRSTUVWXYZ'')"

definition visitStruct :: "string \<Rightarrow> (string \<times> 64 word) list \<Rightarrow> 64 word" where
  "visitStruct typeName fs =
     foldl (\<lambda>h (name, valueHash).
              if exported name
              then hashUpdateUnordered h (hashUpdateOrdered (visitString name) valueHash)
              else h)
       (visitString typeName) fs"

text \<open>
  \<^verbatim>\<open>hash.Hash(namingScheme, nil)\<close> at the struct that \<^verbatim>\<open>constructComponentName\<close>
  declares: a struct type without a name, with the fields \<^verbatim>\<open>componentName\<close>,
  \<^verbatim>\<open>version\<close> and \<^verbatim>\<open>identity\<close>. For these kinds of value the walker returns no
  error.
\<close>

definition Hash :: "namingScheme \<Rightarrow> error + 64 word" where
  "Hash v =
     Inr (visitStruct []
            [(''componentName'', visitString (ns_componentName v)),
             (''version'', visitString (ns_version v)),
             (''identity'', visitMap (ns_identity v))])"

subsection \<open>constructComponentName\<close>

text \<open>\<^verbatim>\<open>strings.ReplaceAll\<close> for a pattern and a replacement of one byte each.\<close>

definition ReplaceAll :: "string \<Rightarrow> char \<Rightarrow> char \<Rightarrow> string" where
  "ReplaceAll s old new = map (\<lambda>c. if c = old then new else c) s"

text \<open>The verb \<^verbatim>\<open>%d\<close> of \<^verbatim>\<open>fmt.Sprintf\<close> at an unsigned integer: its decimal digits.\<close>

definition digit :: "nat \<Rightarrow> char" where
  "digit d = ''0123456789'' ! d"

fun FormatUint :: "nat \<Rightarrow> string" where
  "FormatUint n = (if n < 10 then [digit n] else FormatUint (n div 10) @ [digit (n mod 10)])"

declare FormatUint.simps [simp del]

text \<open>
  \<^verbatim>\<open>constructComponentName\<close> (lines 254 to 269): the name with every slash replaced
  by a dash, the version, and the hash of the naming scheme in decimal, joined by
  dashes. The receiver \<open>env\<close> is not used.
\<close>

definition constructComponentName ::
  "'p env \<Rightarrow> string \<Rightarrow> string \<Rightarrow> Identity \<Rightarrow> error + string" where
  "constructComponentName env name vers ident =
    (let namingScheme = \<lparr>ns_componentName = name, ns_version = vers, ns_identity = ident\<rparr> in
     case Hash namingScheme of
       Inl e \<Rightarrow> Inl (Wrapf ''failed to generate hash for name, version, identity'' e)
     | Inr h \<Rightarrow>
        Inr (ReplaceAll name (CHR ''/'') (CHR ''-'') @ ''-'' @ vers @ ''-'' @ FormatUint (unat h)))"

subsection \<open>parseReferences\<close>

text \<open>
  Modelled from the spec: \<^verbatim>\<open>ComponentVersion.GetRequeueAfter\<close> is declared in
  \<^verbatim>\<open>api/v1alpha1/componentversion_types.go\<close>, which is not among the sources. The
  spec has a failed reconcile retried "after the configured interval", and the sibling
  \<^verbatim>\<open>Localization.GetRequeueAfter\<close> returns \<^verbatim>\<open>in.Spec.Interval.Duration\<close>.
\<close>

definition GetRequeueAfter :: "ComponentVersion \<Rightarrow> int" where
  "GetRequeueAfter obj = spec_Interval obj"

text \<open>
  The body of the loop of \<^verbatim>\<open>parseReferences\<close> up to the recursive call (lines 190
  to 239): the referenced component is fetched, converted and named, a descriptor is
  built with its spec and with \<open>parent\<close> as owner, and \<^verbatim>\<open>CreateOrUpdate\<close> is called
  with a mutate function that changes nothing. It returns the fetched descriptor and
  the reference that points to the persisted one. When the fetcher answers with a nil
  component version and no error, \<^verbatim>\<open>rcv.GetDescriptor()\<close> at line 197 panics.
\<close>

definition parseReference ::
  "'p env \<Rightarrow> ComponentVersion \<Rightarrow> ComponentReference \<Rightarrow> 'p cluster \<Rightarrow>
   'p cluster \<times> (error + 'p ocm_ComponentDescriptor \<times> Reference)" where
  "parseReference env parent ref st =
    (let st1 = record_call (Fetch (ref_ComponentName ref) (ref_Version ref)) st in
     case GetComponentVersion env parent (ref_ComponentName ref) (ref_Version ref) of
       Inl e \<Rightarrow> (st1, Inl (Wrapf ''failed to get component version'' e))
     | Inr None \<Rightarrow> (st1, Inl NilDereference)
     | Inr (Some rcv) \<Rightarrow>
    (case ConvertFrom env rcv of
       Inl e \<Rightarrow> (st1, Inl (Wrapf ''failed to convret component descriptor'' e))
     | Inr cd \<Rightarrow>
    (case constructComponentName env (ref_ComponentName ref) (ref_Version ref) (ref_ExtraIdentity ref) of
       Inl e \<Rightarrow> (st1, Inl (Wrapf ''failed to generate name'' e))
     | Inr componentName \<Rightarrow>
    (let descriptor =
           \<lparr>d_Namespace = cv_Namespace parent, d_Name = componentName,
            d_CreationTimestamp = None, d_OwnerReferences = [],
            d_Spec = \<lparr>cds_ComponentVersionSpec = Some (v3_Spec cd),
                      cds_Version = ref_Version ref\<rparr>\<rparr> in
     case SetOwnerReference env parent descriptor of
       Inl e \<Rightarrow> (st1, Inl (Wrapf ''failed to set owner reference'' e))
     | Inr descriptor1 \<Rightarrow>
    (case CreateOrUpdate env descriptor1 (\<lambda>d. Inr d) st1 of
       (st2, Inl e) \<Rightarrow> (st2, Inl (Wrapf ''failed to create/update component descriptor'' e))
     | (st2, Inr (op, descriptor2)) \<Rightarrow>
        (st2, Inr (rcv, Reference (ref_Name ref) (ref_Version ref) [] (ref_ExtraIdentity ref)
                          (d_Namespace descriptor2, d_Name descriptor2))))))))"

text \<open>
  The loop of \<^verbatim>\<open>parseReferences\<close> (lines 189 to 250) over the references still to do,
  with the \<^verbatim>\<open>result\<close> built so far. A reference whose component has references of its
  own is expanded by a call of \<^verbatim>\<open>parseReferences\<close> (which starts with an empty
  result) before it is appended. Nothing bounds the recursion: \<open>None\<close> is the run that
  does not return.
\<close>

partial_function (option) parseReferences_loop ::
  "'p env \<Rightarrow> ComponentVersion \<Rightarrow> ComponentReference list \<Rightarrow> Reference list \<Rightarrow> 'p cluster \<Rightarrow>
   ('p cluster \<times> (error + Reference list)) option" where
  "parseReferences_loop env parent refs result st =
    (case refs of
       [] \<Rightarrow> Some (st, Inr result)
     | ref # rest \<Rightarrow>
        (case parseReference env parent ref st of
           (st1, Inl e) \<Rightarrow> Some (st1, Inl e)
         | (st1, Inr (rcv, reference)) \<Rightarrow>
            (if cd_References rcv \<noteq> [] then
               Option.bind (parseReferences_loop env parent (cd_References rcv) [] st1)
                 (\<lambda>(st2, r). case r of
                     Inl e \<Rightarrow> Some (st2, Inl e)
                   | Inr out \<Rightarrow>
                      parseReferences_loop env parent rest
                        (result @ [Reference (Name reference) (Version reference) out
                                     (ExtraIdentity reference) (ComponentDescriptorRef reference)])
                        st2)
             else parseReferences_loop env parent rest (result @ [reference]) st1)))"

definition parseReferences ::
  "'p env \<Rightarrow> ComponentVersion \<Rightarrow> ComponentReference list \<Rightarrow> 'p cluster \<Rightarrow>
   ('p cluster \<times> (error + Reference list)) option" where
  "parseReferences env parent refs st = parseReferences_loop env parent refs [] st"

subsection \<open>reconcile and Reconcile\<close>

text \<open>
  \<^verbatim>\<open>reconcile\<close> (lines 90 to 183). The result is the cluster, the object as the
  caller's pointer holds it afterwards, the \<^verbatim>\<open>ctrl.Result\<close> and the error. A panic,
  of \<^verbatim>\<open>cv.GetDescriptor()\<close> at line 103 or of the expansion, is passed on as it is;
  the result that stands beside it is the empty one, since none is returned.
\<close>

definition requeue :: "ComponentVersion \<Rightarrow> Result" where
  "requeue obj = \<lparr>Requeue = False, RequeueAfter = GetRequeueAfter obj\<rparr>"

definition rootMutateFn ::
  "'p env \<Rightarrow> ComponentVersion \<Rightarrow> 'p v3_ComponentDescriptor \<Rightarrow> 'p ComponentDescriptor \<Rightarrow>
   error + 'p ComponentDescriptor" where
  "rootMutateFn env obj cd descriptor =
    (case (if d_CreationTimestamp descriptor = None
           then (case SetOwnerReference env obj descriptor of
                   Inl e \<Rightarrow> Inl (Wrapf ''failed to set owner reference'' e)
                 | Inr descriptor1 \<Rightarrow> Inr descriptor1)
           else Inr descriptor) of
       Inl e \<Rightarrow> Inl e
     | Inr descriptor1 \<Rightarrow>
        Inr (descriptor1\<lparr>d_Spec := \<lparr>cds_ComponentVersionSpec = Some (v3_Spec cd),
                                     cds_Version = v3_Version cd\<rparr>\<rparr>))"

definition reconcile ::
  "'p env \<Rightarrow> ComponentVersion \<Rightarrow> 'p cluster \<Rightarrow>
   ('p cluster \<times> ComponentVersion \<times> Result \<times> error option) option" where
  "reconcile env obj st =
    (let st1 = record_call (Fetch (spec_Component obj) (spec_Version obj)) st in
     case GetComponentVersion env obj (spec_Component obj) (spec_Version obj) of
       Inl e \<Rightarrow> Some (st1, obj, requeue obj, Some (Wrapf ''failed to get component version'' e))
     | Inr None \<Rightarrow> Some (st1, obj, \<lparr>Requeue = False, RequeueAfter = 0\<rparr>, Some NilDereference)
     | Inr (Some cv) \<Rightarrow>
    (case ConvertFrom env cv of
       Inl e \<Rightarrow> Some (st1, obj, \<lparr>Requeue = False, RequeueAfter = 0\<rparr>,
                      Some (Wrapf ''failed to convret component descriptor'' e))
     | Inr cd \<Rightarrow>
    (case constructComponentName env (v3_Name cd) (v3_Version cd) Map.empty of
       Inl e \<Rightarrow> Some (st1, obj, requeue obj, Some (Wrapf ''failed to generate name'' e))
     | Inr componentName \<Rightarrow>
    (let descriptor =
           \<lparr>d_Namespace = cv_Namespace obj, d_Name = componentName,
            d_CreationTimestamp = None, d_OwnerReferences = [],
            d_Spec = \<lparr>cds_ComponentVersionSpec = None, cds_Version = []\<rparr>\<rparr> in
     case CreateOrUpdate env descriptor (rootMutateFn env obj cd) st1 of
       (st2, Inl e) \<Rightarrow>
        Some (st2, obj, requeue obj,
              Some (Wrapf ''failed to create or update component descriptor'' e))
     | (st2, Inr (op, descriptor1)) \<Rightarrow>
    (let componentDescriptor =
           Reference (v3_Name cd) (v3_Version cd) [] Map.empty
             (d_Namespace descriptor1, d_Name descriptor1) in
     if \<not> spec_References_Expand obj then Some (st2, obj, requeue obj, None)
     else
    (case parseReferences env obj (cd_References cv) st2 of
       None \<Rightarrow> None
     | Some (st3, Inl e) \<Rightarrow>
        (if e = NilDereference
         then Some (st3, obj, \<lparr>Requeue = False, RequeueAfter = 0\<rparr>, Some NilDereference)
         else Some (st3, obj, requeue obj, Some (Wrapf ''failed to get references'' e)))
     | Some (st3, Inr refs) \<Rightarrow>
    (case NewHelper env obj of
       Inl e \<Rightarrow> Some (st3, obj, requeue obj, Some (Wrapf ''failed to create patch helper'' e))
     | Inr patchHelper \<Rightarrow>
    (let obj1 = obj\<lparr>status_ComponentDescriptor :=
                      Reference (Name componentDescriptor) (Version componentDescriptor) refs
                        (ExtraIdentity componentDescriptor)
                        (ComponentDescriptorRef componentDescriptor)\<rparr> in
     case Patch env patchHelper obj1 st3 of
       (st4, Some e) \<Rightarrow>
        Some (st4, obj1, requeue obj, Some (Wrapf ''failed to patch resource'' e))
     | (st4, None) \<Rightarrow> Some (st4, obj1, requeue obj, None)))))))))"

text \<open>
  \<^verbatim>\<open>Reconcile\<close> (lines 58 to 88): the root object is read, the component is
  verified, and only then reconciled.
\<close>

definition Reconcile ::
  "'p env \<Rightarrow> NamespacedName \<Rightarrow> 'p cluster \<Rightarrow> ('p cluster \<times> Result \<times> error option) option" where
  "Reconcile env req st =
    (case client_GetRoot env req st of
       (st1, Inl e) \<Rightarrow>
        (if e = NotFound then Some (st1, \<lparr>Requeue = False, RequeueAfter = 0\<rparr>, None)
         else Some (st1, \<lparr>Requeue = False, RequeueAfter = 0\<rparr>,
                    Some (Wrapf ''failed to get component object'' e)))
     | (st1, Inr component) \<Rightarrow>
        (let st2 = record_call (Verify req) st1 in
         case VerifyComponent env component of
           (ok, Some e) \<Rightarrow> Some (st2, requeue component, Some (Wrapf ''failed to verify component'' e))
         | (ok, None) \<Rightarrow>
            (if \<not> ok
             then Some (st2, requeue component,
                        Some (Errorf (''attempted to verify component, but the digest didn'' @
                                      [CHR 0x27] @ ''t match'')))
             else (case reconcile env component st2 of
                     None \<Rightarrow> None
                   | Some (st3, obj, res, err) \<Rightarrow> Some (st3, res, err)))))"

subsection \<open>Notions the properties are stated with\<close>

text \<open>
  The owner reference that \<^verbatim>\<open>SetOwnerReference\<close> builds for the root object, when
  the scheme knows its kind.
\<close>

definition rootOwnerReference :: "'p env \<Rightarrow> ComponentVersion \<Rightarrow> OwnerReference option" where
  "rootOwnerReference env owner =
    (case Scheme env of
       None \<Rightarrow> None
     | Some (apiVersion, kind) \<Rightarrow>
        Some \<lparr>or_APIVersion = apiVersion, or_Kind = kind, or_Name = cv_Name owner,
              or_UID = cv_UID owner\<rparr>)"

text \<open>
  What the API server guarantees of the objects it stores: an object is stored under its
  own namespace and name, and a stored descriptor has a creation timestamp.
\<close>

definition wf_cluster :: "'p cluster \<Rightarrow> bool" where
  "wf_cluster st \<longleftrightarrow>
     (\<forall>k obj. componentVersions st k = Some obj \<longrightarrow> (cv_Namespace obj, cv_Name obj) = k) \<and>
     (\<forall>k d. componentDescriptors st k = Some d \<longrightarrow>
        (d_Namespace d, d_Name d) = k \<and> d_CreationTimestamp d \<noteq> None)"

text \<open>
  The fetcher and the verifier read the spec of the root object they are given, not
  the status the controller writes.
\<close>

definition ignores_status :: "'p env \<Rightarrow> bool" where
  "ignores_status env \<longleftrightarrow>
     (\<forall>obj R. VerifyComponent env (obj\<lparr>status_ComponentDescriptor := R\<rparr>) = VerifyComponent env obj \<and>
        GetComponentVersion env (obj\<lparr>status_ComponentDescriptor := R\<rparr>) = GetComponentVersion env obj)"

text \<open>
  The reference graph the fetcher presents: the references of the component a reference
  names, and the relation of a reference to the references below it.
\<close>

definition references_of ::
  "'p env \<Rightarrow> ComponentVersion \<Rightarrow> ComponentReference \<Rightarrow> ComponentReference list" where
  "references_of env parent ref =
    (case GetComponentVersion env parent (ref_ComponentName ref) (ref_Version ref) of
       Inl e \<Rightarrow> []
     | Inr None \<Rightarrow> []
     | Inr (Some rcv) \<Rightarrow> cd_References rcv)"

definition reference_graph ::
  "'p env \<Rightarrow> ComponentVersion \<Rightarrow> (ComponentReference \<times> ComponentReference) set" where
  "reference_graph env parent = {(child, ref). child \<in> set (references_of env parent ref)}"

text \<open>
  The references the expansion of a list can reach: the references of the list, and
  the references of the components they name, to any depth.
\<close>

definition below ::
  "'p env \<Rightarrow> ComponentVersion \<Rightarrow> ComponentReference list \<Rightarrow> ComponentReference set" where
  "below env parent refs =
     {r. \<exists>r0 \<in> set refs. (r, r0) \<in> (reference_graph env parent)\<^sup>*}"

text \<open>
  A reference resolves when nothing that the expansion does for it fails: the fetcher
  answers with a component, the conversion succeeds, the scheme knows the kind of the
  root, and the client reads and creates the record under the computed key.
\<close>

definition resolves :: "'p env \<Rightarrow> ComponentVersion \<Rightarrow> ComponentReference \<Rightarrow> bool" where
  "resolves env parent ref \<longleftrightarrow>
     (case GetComponentVersion env parent (ref_ComponentName ref) (ref_Version ref) of
        Inl e \<Rightarrow> False
      | Inr None \<Rightarrow> False
      | Inr (Some rcv) \<Rightarrow> \<not> isl (ConvertFrom env rcv)) \<and>
     Scheme env \<noteq> None \<and>
     (case constructComponentName env (ref_ComponentName ref) (ref_Version ref)
             (ref_ExtraIdentity ref) of
        Inl e \<Rightarrow> False
      | Inr componentName \<Rightarrow>
          GetErr env (cv_Namespace parent, componentName) = None \<and>
          CreateErr env (cv_Namespace parent, componentName) = None)"

text \<open>
  What the expansion may do to the cluster on behalf of the root \<open>parent\<close>: the root
  objects stay, a stored descriptor stays as it is, and a descriptor that is new is
  stored under its own key, stamped, and owned by the root alone.
\<close>

definition grows_for :: "'p env \<Rightarrow> ComponentVersion \<Rightarrow> 'p cluster \<Rightarrow> 'p cluster \<Rightarrow> bool" where
  "grows_for env parent st st' \<longleftrightarrow>
     componentVersions st' = componentVersions st \<and>
     (\<forall>k. componentDescriptors st k \<noteq> None \<longrightarrow>
        componentDescriptors st' k = componentDescriptors st k) \<and>
     (\<forall>k d. componentDescriptors st k = None \<longrightarrow> componentDescriptors st' k = Some d \<longrightarrow>
        (d_Namespace d, d_Name d) = k \<and> d_Namespace d = cv_Namespace parent \<and>
        d_CreationTimestamp d \<noteq> None \<and>
        (\<exists>owner. rootOwnerReference env parent = Some owner \<and> d_OwnerReferences d = [owner]))"

text \<open>
  The descriptor \<^verbatim>\<open>reconcile\<close> hands to \<^verbatim>\<open>CreateOrUpdate\<close> for the root: namespace
  and name, nothing else set.
\<close>

definition rootDescriptor :: "ComponentVersion \<Rightarrow> string \<Rightarrow> 'p ComponentDescriptor" where
  "rootDescriptor obj componentName =
     \<lparr>d_Namespace = cv_Namespace obj, d_Name = componentName,
      d_CreationTimestamp = None, d_OwnerReferences = [],
      d_Spec = \<lparr>cds_ComponentVersionSpec = None, cds_Version = []\<rparr>\<rparr>"

text \<open>
  Flat ownership between two states of the cluster, for the root object \<open>root\<close>: a
  descriptor that was stored is still stored and has the owner references it had, and
  a descriptor that is new has one owner reference, the one to the root.
\<close>

definition ownership_kept :: "'p env \<Rightarrow> ComponentVersion \<Rightarrow> 'p cluster \<Rightarrow> 'p cluster \<Rightarrow> bool" where
  "ownership_kept env root st st' \<longleftrightarrow>
     (\<forall>k d. componentDescriptors st k = Some d \<longrightarrow>
        (\<exists>d'. componentDescriptors st' k = Some d' \<and>
              d_OwnerReferences d' = d_OwnerReferences d)) \<and>
     (\<forall>k d'. componentDescriptors st k = None \<longrightarrow> componentDescriptors st' k = Some d' \<longrightarrow>
        (\<exists>owner. rootOwnerReference env root = Some owner \<and> d_OwnerReferences d' = [owner]))"

text \<open>
  The end of \<^verbatim>\<open>reconcile\<close> (lines 165 to 182), on its own: the patch helper is made,
  the tree is put on the status of the object, and the object is patched.
\<close>

definition commitStatus ::
  "'p env \<Rightarrow> ComponentVersion \<Rightarrow> Reference \<Rightarrow> 'p cluster \<Rightarrow>
   'p cluster \<times> ComponentVersion \<times> Result \<times> error option" where
  "commitStatus env obj tree st =
    (case NewHelper env obj of
       Inl e \<Rightarrow> (st, obj, requeue obj, Some (Wrapf ''failed to create patch helper'' e))
     | Inr patchHelper \<Rightarrow>
        (let obj1 = obj\<lparr>status_ComponentDescriptor := tree\<rparr> in
         case Patch env patchHelper obj1 st of
           (st4, Some e) \<Rightarrow> (st4, obj1, requeue obj, Some (Wrapf ''failed to patch resource'' e))
         | (st4, None) \<Rightarrow> (st4, obj1, requeue obj, None)))"

text \<open>
  A list of status references mirrors a list of component references: same length, and
  at each position the declared name, version and extra identity, the key of the
  persisted descriptor, and below it a list that mirrors the references of the fetched
  component.
\<close>

inductive mirrors ::
  "'p env \<Rightarrow> ComponentVersion \<Rightarrow> ComponentReference list \<Rightarrow> Reference list \<Rightarrow> bool"
  for env :: "'p env" and parent :: ComponentVersion where
  mirrors_Nil: "mirrors env parent [] []"
| mirrors_Cons:
    "GetComponentVersion env parent (ref_ComponentName ref) (ref_Version ref) = Inr (Some rcv) \<Longrightarrow>
     constructComponentName env (ref_ComponentName ref) (ref_Version ref) (ref_ExtraIdentity ref) =
       Inr componentName \<Longrightarrow>
     mirrors env parent (cd_References rcv) children \<Longrightarrow>
     mirrors env parent rest out \<Longrightarrow>
     mirrors env parent (ref # rest)
       (Reference (ref_Name ref) (ref_Version ref) children (ref_ExtraIdentity ref)
          (cv_Namespace parent, componentName) # out)"

subsection \<open>The data of the controller's test\<close>

text \<open>
  The objects of \<^verbatim>\<open>TestComponentVersionReconcile\<close>: a root component with one
  reference to an embedded component, a root object that asks for expansion every ten
  minutes, and the mock of the fetcher and verifier. \<open>mockFetcherWith\<close> is the mock
  with its fields \<^verbatim>\<open>cv\<close>, \<^verbatim>\<open>getComponentErr\<close>, \<^verbatim>\<open>verified\<close> and
  \<^verbatim>\<open>verifyErr\<close>: it answers \<^verbatim>\<open>m.cv[name], m.getComponentErr\<close>, which is the nil
  component version for a name that is not registered. The rest of the environment is
  that of the test: the conversion keeps name, version and content, the scheme knows
  the kind of the root, and the fake client does not fail. \<open>mockFetcher\<close> is the mock
  as the test fills it.
\<close>

definition test_obj :: ComponentVersion where
  "test_obj =
    \<lparr>cv_Namespace = ''default'', cv_Name = ''test-name'', cv_UID = ''uid-1'',
     spec_Interval = 600000000000,
     spec_Component = ''github.com/skarlso/root'', spec_Version = ''v0.0.1'',
     spec_Repository_URL = ''https://github.com/Skarlso/test'',
     spec_Repository_SecretRef = ''test-secret'', spec_Verify = [],
     spec_References_Expand = True,
     status_ComponentDescriptor = Reference [] [] [] Map.empty ([], []),
     status_Verified = False\<rparr>"

definition test_ref :: ComponentReference where
  "test_ref =
    \<lparr>ref_Name = ''test-ref-1'', ref_Version = ''v0.0.1'', ref_ExtraIdentity = Map.empty,
     ref_ComponentName = ''github.com/skarlso/embedded''\<rparr>"

definition test_root :: "string ocm_ComponentDescriptor" where
  "test_root =
    \<lparr>cd_Name = ''github.com/skarlso/root'', cd_Version = ''v0.0.1'',
     cd_References = [test_ref], cd_Content = ''root''\<rparr>"

definition test_embedded :: "string ocm_ComponentDescriptor" where
  "test_embedded =
    \<lparr>cd_Name = ''github.com/skarlso/embedded'', cd_Version = ''v0.0.1'',
     cd_References = [], cd_Content = ''embedded''\<rparr>"

definition mockFetcherWith ::
  "(string \<rightharpoonup> string ocm_ComponentDescriptor) \<Rightarrow> error option \<Rightarrow> bool \<Rightarrow> error option \<Rightarrow>
   string env" where
  "mockFetcherWith cv getComponentErr verified verifyErr =
    \<lparr>VerifyComponent = (\<lambda>obj. (verified, verifyErr)),
     GetComponentVersion = (\<lambda>obj name vers.
        case getComponentErr of Some e \<Rightarrow> Inl e | None \<Rightarrow> Inr (cv name)),
     ConvertFrom = (\<lambda>d. Inr \<lparr>v3_Name = cd_Name d, v3_Version = cd_Version d,
                               v3_Spec = cd_Content d\<rparr>),
     Scheme = Some (''delivery.ocm.software/v1alpha1'', ''ComponentVersion''),
     Now = 1,
     GetRootErr = (\<lambda>key. None), GetErr = (\<lambda>key. None), CreateErr = (\<lambda>key. None),
     UpdateErr = (\<lambda>key. None), NewHelperErr = None, PatchErr = (\<lambda>key. None)\<rparr>"

definition test_cv :: "string \<rightharpoonup> string ocm_ComponentDescriptor" where
  "test_cv =
    [''github.com/skarlso/embedded'' \<mapsto> test_embedded, ''github.com/skarlso/root'' \<mapsto> test_root]"

definition mockFetcher :: "bool \<Rightarrow> error option \<Rightarrow> string env" where
  "mockFetcher verified verifyErr = mockFetcherWith test_cv None verified verifyErr"

definition test_cluster :: "string cluster" where
  "test_cluster =
    \<lparr>componentVersions = [(''default'', ''test-name'') \<mapsto> test_obj],
     componentDescriptors = Map.empty, calls = []\<rparr>"

text \<open>
  The cluster that the test expects after its run: the root and the embedded component
  persisted, each owned by the root object, and the tree with the one reference on the
  status.
\<close>

definition test_owner :: OwnerReference where
  "test_owner =
    \<lparr>or_APIVersion = ''delivery.ocm.software/v1alpha1'', or_Kind = ''ComponentVersion'',
     or_Name = ''test-name'', or_UID = ''uid-1''\<rparr>"

definition test_root_record :: "string ComponentDescriptor" where
  "test_root_record =
    \<lparr>d_Namespace = ''default'', d_Name = ''github.com-skarlso-root-v0.0.1-14695981039346656037'',
     d_CreationTimestamp = Some 1, d_OwnerReferences = [test_owner],
     d_Spec = \<lparr>cds_ComponentVersionSpec = Some ''root'', cds_Version = ''v0.0.1''\<rparr>\<rparr>"

definition test_embedded_record :: "string ComponentDescriptor" where
  "test_embedded_record =
    \<lparr>d_Namespace = ''default'', d_Name = ''github.com-skarlso-embedded-v0.0.1-14695981039346656037'',
     d_CreationTimestamp = Some 1, d_OwnerReferences = [test_owner],
     d_Spec = \<lparr>cds_ComponentVersionSpec = Some ''embedded'', cds_Version = ''v0.0.1''\<rparr>\<rparr>"

definition test_status :: Reference where
  "test_status =
    Reference ''github.com/skarlso/root'' ''v0.0.1''
      [Reference ''test-ref-1'' ''v0.0.1'' [] Map.empty
         (''default'', ''github.com-skarlso-embedded-v0.0.1-14695981039346656037'')]
      Map.empty (''default'', ''github.com-skarlso-root-v0.0.1-14695981039346656037'')"

definition test_result :: "string cluster" where
  "test_result =
    \<lparr>componentVersions =
       [(''default'', ''test-name'') \<mapsto> test_obj\<lparr>status_ComponentDescriptor := test_status\<rparr>],
     componentDescriptors =
       [(''default'', ''github.com-skarlso-root-v0.0.1-14695981039346656037'') \<mapsto> test_root_record,
        (''default'', ''github.com-skarlso-embedded-v0.0.1-14695981039346656037'') \<mapsto> test_embedded_record],
     calls =
       [GetRoot (''default'', ''test-name''), Verify (''default'', ''test-name''),
        Fetch ''github.com/skarlso/root'' ''v0.0.1'',
        Get (''default'', ''github.com-skarlso-root-v0.0.1-14695981039346656037''),
        Create (''default'', ''github.com-skarlso-root-v0.0.1-14695981039346656037''),
        Fetch ''github.com/skarlso/embedded'' ''v0.0.1'',
        Get (''default'', ''github.com-skarlso-embedded-v0.0.1-14695981039346656037''),
        Create (''default'', ''github.com-skarlso-embedded-v0.0.1-14695981039346656037''),
        PatchStatus (''default'', ''test-name'')]\<rparr>"

text \<open>
  A cluster in which the descriptor of the embedded component is there already, with an
  older payload and another owner.
\<close>

definition stale_embedded_record :: "string ComponentDescriptor" where
  "stale_embedded_record =
    \<lparr>d_Namespace = ''default'', d_Name = ''github.com-skarlso-embedded-v0.0.1-14695981039346656037'',
     d_CreationTimestamp = Some 1,
     d_OwnerReferences = [test_owner\<lparr>or_Name := ''another-root'', or_UID := ''uid-0''\<rparr>],
     d_Spec = \<lparr>cds_ComponentVersionSpec = Some ''embedded, as it was'',
               cds_Version = ''v0.0.1''\<rparr>\<rparr>"

definition stale_cluster :: "string cluster" where
  "stale_cluster =
    test_cluster\<lparr>componentDescriptors :=
      [(''default'', ''github.com-skarlso-embedded-v0.0.1-14695981039346656037'') \<mapsto> stale_embedded_record]\<rparr>"

text \<open>The cluster of the test with expansion switched off on the root object.\<close>

definition noexpand_obj :: ComponentVersion where
  "noexpand_obj = test_obj\<lparr>spec_References_Expand := False\<rparr>"

definition noexpand_cluster :: "string cluster" where
  "noexpand_cluster =
    test_cluster\<lparr>componentVersions := [(''default'', ''test-name'') \<mapsto> noexpand_obj]\<rparr>"

text \<open>
  More registries for the mock. In the first the component of the root refers to the
  components \<open>a\<close>, \<open>b\<close> and \<open>c\<close>, in this order, and \<open>b\<close> refers to \<open>b1\<close> and
  \<open>b2\<close>; \<open>tree_out\<close> is the reference list that belongs on the status for it. In the
  second the root refers to \<open>a\<close>, \<open>a\<close> refers to \<open>b\<close>, and \<open>b\<close> refers to itself.
\<close>

definition reference_to :: "string \<Rightarrow> string \<Rightarrow> ComponentReference" where
  "reference_to name component =
    \<lparr>ref_Name = name, ref_Version = ''v0.0.1'', ref_ExtraIdentity = Map.empty,
     ref_ComponentName = component\<rparr>"

definition component_of :: "string \<Rightarrow> ComponentReference list \<Rightarrow> string ocm_ComponentDescriptor" where
  "component_of name refs =
    \<lparr>cd_Name = name, cd_Version = ''v0.0.1'', cd_References = refs, cd_Content = name\<rparr>"

definition tree_refs :: "ComponentReference list" where
  "tree_refs =
    [reference_to ''a'' ''github.com/skarlso/a'', reference_to ''b'' ''github.com/skarlso/b'',
     reference_to ''c'' ''github.com/skarlso/c'']"

definition tree_cv :: "string \<rightharpoonup> string ocm_ComponentDescriptor" where
  "tree_cv =
    [''github.com/skarlso/root'' \<mapsto> component_of ''github.com/skarlso/root'' tree_refs,
     ''github.com/skarlso/a'' \<mapsto> component_of ''github.com/skarlso/a'' [],
     ''github.com/skarlso/b'' \<mapsto> component_of ''github.com/skarlso/b''
        [reference_to ''b1'' ''github.com/skarlso/b1'', reference_to ''b2'' ''github.com/skarlso/b2''],
     ''github.com/skarlso/c'' \<mapsto> component_of ''github.com/skarlso/c'' [],
     ''github.com/skarlso/b1'' \<mapsto> component_of ''github.com/skarlso/b1'' [],
     ''github.com/skarlso/b2'' \<mapsto> component_of ''github.com/skarlso/b2'' []]"

definition treeFetcher :: "string env" where
  "treeFetcher = mockFetcherWith tree_cv None True None"

definition tree_out :: "Reference list" where
  "tree_out =
    [Reference ''a'' ''v0.0.1'' [] Map.empty
       (''default'', ''github.com-skarlso-a-v0.0.1-14695981039346656037''),
     Reference ''b'' ''v0.0.1''
       [Reference ''b1'' ''v0.0.1'' [] Map.empty
          (''default'', ''github.com-skarlso-b1-v0.0.1-14695981039346656037''),
        Reference ''b2'' ''v0.0.1'' [] Map.empty
          (''default'', ''github.com-skarlso-b2-v0.0.1-14695981039346656037'')]
       Map.empty (''default'', ''github.com-skarlso-b-v0.0.1-14695981039346656037''),
     Reference ''c'' ''v0.0.1'' [] Map.empty
       (''default'', ''github.com-skarlso-c-v0.0.1-14695981039346656037'')]"

definition cycle_refs :: "ComponentReference list" where
  "cycle_refs = [reference_to ''a'' ''github.com/skarlso/a'']"

definition cycle_cv :: "string \<rightharpoonup> string ocm_ComponentDescriptor" where
  "cycle_cv =
    [''github.com/skarlso/root'' \<mapsto> component_of ''github.com/skarlso/root'' cycle_refs,
     ''github.com/skarlso/a'' \<mapsto> component_of ''github.com/skarlso/a''
        [reference_to ''b'' ''github.com/skarlso/b''],
     ''github.com/skarlso/b'' \<mapsto> component_of ''github.com/skarlso/b''
        [reference_to ''b'' ''github.com/skarlso/b'']]"

definition cycleFetcher :: "string env" where
  "cycleFetcher = mockFetcherWith cycle_cv None True None"

section \<open>Auxiliary facts\<close>

subsection \<open>The hash and its decimal digits\<close>

lemma FormatUint_nonempty: "FormatUint n \<noteq> []"
  by (subst FormatUint.simps) simp

lemma fnv64a_Nil: "fnv64a [] = offset64"
  by (simp add: fnv64a_def)

lemma not_exported [simp]:
  "\<not> exported ''componentName''" "\<not> exported ''version''" "\<not> exported ''identity''"
  by (simp_all add: exported_def)

lemma Hash_offset: "Hash v = Inr 14695981039346656037"
  by (simp add: Hash_def visitStruct_def visitString_def fnv64a_Nil offset64_def)

lemma FormatUint_digits: "10 \<le> n \<Longrightarrow> FormatUint n = FormatUint (n div 10) @ [digit (n mod 10)]"
  by (subst FormatUint.simps) simp

lemma FormatUint_digit: "n < 10 \<Longrightarrow> FormatUint n = [digit n]"
  by (subst FormatUint.simps) simp

lemma FormatUint_offset: "FormatUint (unat (14695981039346656037 :: 64 word)) = ''14695981039346656037''"
proof -
  have u: "unat (14695981039346656037 :: 64 word) = 14695981039346656037" by simp
  have "FormatUint 14695981039346656037 = ''14695981039346656037''"
    by (simp add: FormatUint_digits FormatUint_digit digit_def)
  then show ?thesis unfolding u .
qed

lemma constructComponentName_key:
  "constructComponentName env name vers ident =
     Inr (ReplaceAll name (CHR ''/'') (CHR ''-'') @ ''-'' @ vers @ ''-14695981039346656037'')"
  by (simp only: constructComponentName_def Let_def Hash_offset sum.case FormatUint_offset) simp

subsection \<open>Induction over a run of the expansion that returns\<close>

lemma parseReferences_loop_induct [consumes 1, case_names Nil Err Leaf NodeErr Node]:
  assumes run: "parseReferences_loop env parent refs result st = Some y"
    and rNil: "\<And>result st. P [] result st (st, Inr result)"
    and rErr: "\<And>ref rest result st st1 e.
        parseReference env parent ref st = (st1, Inl e) \<Longrightarrow> P (ref # rest) result st (st1, Inl e)"
    and rLeaf: "\<And>ref rest result st st1 rcv reference y.
        parseReference env parent ref st = (st1, Inr (rcv, reference)) \<Longrightarrow>
        cd_References rcv = [] \<Longrightarrow>
        parseReferences_loop env parent rest (result @ [reference]) st1 = Some y \<Longrightarrow>
        P rest (result @ [reference]) st1 y \<Longrightarrow> P (ref # rest) result st y"
    and rNodeErr: "\<And>ref rest result st st1 rcv reference st2 e.
        parseReference env parent ref st = (st1, Inr (rcv, reference)) \<Longrightarrow>
        cd_References rcv \<noteq> [] \<Longrightarrow>
        parseReferences_loop env parent (cd_References rcv) [] st1 = Some (st2, Inl e) \<Longrightarrow>
        P (cd_References rcv) [] st1 (st2, Inl e) \<Longrightarrow> P (ref # rest) result st (st2, Inl e)"
    and rNode: "\<And>ref rest result st st1 rcv reference st2 out y.
        parseReference env parent ref st = (st1, Inr (rcv, reference)) \<Longrightarrow>
        cd_References rcv \<noteq> [] \<Longrightarrow>
        parseReferences_loop env parent (cd_References rcv) [] st1 = Some (st2, Inr out) \<Longrightarrow>
        P (cd_References rcv) [] st1 (st2, Inr out) \<Longrightarrow>
        parseReferences_loop env parent rest
          (result @ [Reference (Name reference) (Version reference) out
                       (ExtraIdentity reference) (ComponentDescriptorRef reference)]) st2 = Some y \<Longrightarrow>
        P rest (result @ [Reference (Name reference) (Version reference) out
                       (ExtraIdentity reference) (ComponentDescriptorRef reference)]) st2 y \<Longrightarrow>
        P (ref # rest) result st y"
  shows "P refs result st y"
proof -
  have "e = env \<and> p = parent \<longrightarrow>
        parseReferences_loop e p refs result st = Some y \<and> P refs result st y"
    if "parseReferences_loop e p refs result st = Some y" for e p
    using that
  proof (induction e p refs result st y rule: parseReferences_loop.raw_induct [rotated, consumes 1])
    case (1 f0 e p refs result st y)
    show ?case
    proof (intro impI)
    assume ep: "e = env \<and> p = parent"
    define f where "f = f0 env parent"
    have sub: "parseReferences_loop env parent a b c = Some z" if "f a b c = Some z" for a b c z
      using 1(1) [of env parent a b c z] that unfolding f_def by simp
    have ih: "P a b c z" if "f a b c = Some z" for a b c z
      using 1(1) [of env parent a b c z] that unfolding f_def by simp
    have body: "(case refs of
       [] \<Rightarrow> Some (st, Inr result)
     | ref # rest \<Rightarrow>
        (case parseReference env parent ref st of
           (st1, Inl e) \<Rightarrow> Some (st1, Inl e)
         | (st1, Inr (rcv, reference)) \<Rightarrow>
            (if cd_References rcv \<noteq> [] then
               Option.bind (f (cd_References rcv) [] st1)
                 (\<lambda>(st2, r). case r of
                     Inl e \<Rightarrow> Some (st2, Inl e)
                   | Inr out \<Rightarrow>
                      f rest
                        (result @ [Reference (Name reference) (Version reference) out
                                     (ExtraIdentity reference) (ComponentDescriptorRef reference)])
                        st2)
             else f rest (result @ [reference]) st1))) = Some y"
      using 1(2) unfolding f_def conjunct1 [OF ep] conjunct2 [OF ep] .
    have "parseReferences_loop env parent refs result st = Some y \<and> P refs result st y"
    proof (cases refs)
      case Nil
      with body show ?thesis by (auto simp add: parseReferences_loop.simps intro: rNil)
    next
      case (Cons ref rest)
      obtain st1 r where step: "parseReference env parent ref st = (st1, r)" by (cases "parseReference env parent ref st")
      show ?thesis
      proof (cases r)
        case (Inl e)
        with body Cons step show ?thesis
          by (auto simp add: parseReferences_loop.simps [of env parent "ref # rest"] intro: rErr)
      next
        case (Inr p)
        obtain rcv reference where p: "p = (rcv, reference)" by (cases p)
        show ?thesis
        proof (cases "cd_References rcv = []")
          case True
          with body Cons step Inr p have f: "f rest (result @ [reference]) st1 = Some y" by simp
          from sub [OF f] ih [OF f] True Cons step Inr p show ?thesis
            by (auto simp add: parseReferences_loop.simps [of env parent "ref # rest"] intro: rLeaf)
        next
          case False
          with body Cons step Inr p obtain st2 r2 where
            n: "f (cd_References rcv) [] st1 = Some (st2, r2)" and
            k: "(case r2 of Inl e \<Rightarrow> Some (st2, Inl e)
                 | Inr out \<Rightarrow> f rest (result @ [Reference (Name reference) (Version reference) out
                       (ExtraIdentity reference) (ComponentDescriptorRef reference)]) st2) = Some y"
            by (auto simp add: bind_eq_Some_conv)
          show ?thesis
          proof (cases r2)
            case (Inl e)
            with k have y: "y = (st2, Inl e)" by simp
            from sub [OF n] ih [OF n] False Cons step Inr p Inl y show ?thesis
              by (auto simp add: parseReferences_loop.simps [of env parent "ref # rest"] intro: rNodeErr)
          next
            case (Inr out)
            note r2 = this
            with k have f: "f rest (result @ [Reference (Name reference) (Version reference) out
                       (ExtraIdentity reference) (ComponentDescriptorRef reference)]) st2 = Some y" by simp
            have "P (ref # rest) result st y"
              using step False sub [OF n] ih [OF n] sub [OF f] ih [OF f] unfolding r2 \<open>r = Inr p\<close> p
              by (rule rNode)
            with sub [OF n] sub [OF f] False Cons step \<open>r = Inr p\<close> p r2 show ?thesis
              by (simp add: parseReferences_loop.simps [of env parent "ref # rest"])
          qed
        qed
      qed
    qed
    then show "parseReferences_loop e p refs result st = Some y \<and> P refs result st y"
      using ep by simp
    qed
  qed
  with run show ?thesis by simp
qed

subsection \<open>One reference\<close>

lemma CreateOrUpdate_noop:
  assumes "CreateOrUpdate env obj (\<lambda>d. Inr d) st = (st1, r)"
  shows "componentVersions st1 = componentVersions st"
    and "componentDescriptors st k \<noteq> None \<Longrightarrow> componentDescriptors st1 k = componentDescriptors st k"
    and "componentDescriptors st k = None \<Longrightarrow> componentDescriptors st1 k = Some d \<Longrightarrow>
           k = (d_Namespace obj, d_Name obj) \<and> d = obj\<lparr>d_CreationTimestamp := Some (Now env)\<rparr>"
    and "\<exists>cs. calls st1 = calls st @ Get (d_Namespace obj, d_Name obj) # cs"
  using assms
  by (auto simp add: CreateOrUpdate_def client_Get_def client_Create_def client_Update_def
      mutate_def record_call_def Let_def split: option.splits if_splits sum.splits prod.splits)

lemma CreateOrUpdate_noop_result:
  assumes "CreateOrUpdate env obj (\<lambda>d. Inr d) st = (st1, Inr (op, d2))"
  shows "(d_Namespace d2, d_Name d2) = (d_Namespace obj, d_Name obj)"
    and "componentDescriptors st1 (d_Namespace obj, d_Name obj) \<noteq> None"
    and "GetErr env (d_Namespace obj, d_Name obj) = None"
  using assms
  by (auto simp add: CreateOrUpdate_def client_Get_def client_Create_def client_Update_def
      mutate_def record_call_def Let_def split: option.splits if_splits sum.splits prod.splits)

lemma parseReference_Inr:
  assumes "parseReference env parent ref st = (st1, Inr (rcv, reference))"
  shows "\<exists>cd componentName owner op d2.
      GetComponentVersion env parent (ref_ComponentName ref) (ref_Version ref) = Inr (Some rcv) \<and>
      ConvertFrom env rcv = Inr cd \<and>
      constructComponentName env (ref_ComponentName ref) (ref_Version ref) (ref_ExtraIdentity ref) =
        Inr componentName \<and>
      rootOwnerReference env parent = Some owner \<and>
      CreateOrUpdate env
        \<lparr>d_Namespace = cv_Namespace parent, d_Name = componentName,
         d_CreationTimestamp = None, d_OwnerReferences = [owner],
         d_Spec = \<lparr>cds_ComponentVersionSpec = Some (v3_Spec cd),
                   cds_Version = ref_Version ref\<rparr>\<rparr>
        (\<lambda>d. Inr d) (record_call (Fetch (ref_ComponentName ref) (ref_Version ref)) st) =
        (st1, Inr (op, d2)) \<and>
      reference = Reference (ref_Name ref) (ref_Version ref) [] (ref_ExtraIdentity ref)
                    (cv_Namespace parent, componentName)"
proof -
  from assms obtain cd where
    f: "GetComponentVersion env parent (ref_ComponentName ref) (ref_Version ref) = Inr (Some rcv)"
    and c: "ConvertFrom env rcv = Inr cd"
    by (auto simp add: parseReference_def Let_def split: sum.splits prod.splits option.splits)
  from assms f c obtain componentName where
    n: "constructComponentName env (ref_ComponentName ref) (ref_Version ref) (ref_ExtraIdentity ref) =
        Inr componentName"
    by (auto simp add: parseReference_def Let_def split: sum.splits prod.splits)
  from assms f c n obtain owner where o: "rootOwnerReference env parent = Some owner"
    by (auto simp add: parseReference_def Let_def SetOwnerReference_def rootOwnerReference_def
        split: sum.splits prod.splits option.splits)
  from assms f c n o obtain op d2 where
    cu: "CreateOrUpdate env
        \<lparr>d_Namespace = cv_Namespace parent, d_Name = componentName,
         d_CreationTimestamp = None, d_OwnerReferences = [owner],
         d_Spec = \<lparr>cds_ComponentVersionSpec = Some (v3_Spec cd),
                   cds_Version = ref_Version ref\<rparr>\<rparr>
        (\<lambda>d. Inr d) (record_call (Fetch (ref_ComponentName ref) (ref_Version ref)) st) =
        (st1, Inr (op, d2))"
    and r: "reference = Reference (ref_Name ref) (ref_Version ref) [] (ref_ExtraIdentity ref)
                    (d_Namespace d2, d_Name d2)"
    by (auto simp add: parseReference_def Let_def SetOwnerReference_def rootOwnerReference_def
        split: sum.splits prod.splits option.splits)
  from CreateOrUpdate_noop_result(1) [OF cu] r f c n o cu show ?thesis by auto
qed

lemma parseReference_unfold:
  assumes "GetComponentVersion env parent (ref_ComponentName ref) (ref_Version ref) = Inr (Some rcv)"
    and "ConvertFrom env rcv = Inr cd"
    and "constructComponentName env (ref_ComponentName ref) (ref_Version ref) (ref_ExtraIdentity ref) =
        Inr componentName"
    and "rootOwnerReference env parent = Some owner"
  shows "parseReference env parent ref st =
    (case CreateOrUpdate env
        \<lparr>d_Namespace = cv_Namespace parent, d_Name = componentName,
         d_CreationTimestamp = None, d_OwnerReferences = [owner],
         d_Spec = \<lparr>cds_ComponentVersionSpec = Some (v3_Spec cd),
                   cds_Version = ref_Version ref\<rparr>\<rparr>
        (\<lambda>d. Inr d) (record_call (Fetch (ref_ComponentName ref) (ref_Version ref)) st) of
       (st2, Inl e) \<Rightarrow> (st2, Inl (Wrapf ''failed to create/update component descriptor'' e))
     | (st2, Inr (op, d2)) \<Rightarrow>
        (st2, Inr (rcv, Reference (ref_Name ref) (ref_Version ref) [] (ref_ExtraIdentity ref)
                          (d_Namespace d2, d_Name d2))))"
  using assms
  by (auto simp add: parseReference_def Let_def SetOwnerReference_def rootOwnerReference_def
      validateOwner_def split: option.splits)

lemma parseReference_early:
  assumes "\<not> (\<exists>rcv cd componentName owner.
      GetComponentVersion env parent (ref_ComponentName ref) (ref_Version ref) = Inr (Some rcv) \<and>
      ConvertFrom env rcv = Inr cd \<and>
      constructComponentName env (ref_ComponentName ref) (ref_Version ref) (ref_ExtraIdentity ref) =
        Inr componentName \<and>
      rootOwnerReference env parent = Some owner)"
  shows "\<exists>e. parseReference env parent ref st =
           (record_call (Fetch (ref_ComponentName ref) (ref_Version ref)) st, Inl e)"
  using assms
  by (auto simp add: parseReference_def Let_def SetOwnerReference_def rootOwnerReference_def
      validateOwner_def split: option.splits sum.splits)

lemma parseReference_grows:
  assumes "parseReference env parent ref st = (st1, r)"
  shows "grows_for env parent st st1"
proof (cases "\<exists>rcv cd componentName owner.
      GetComponentVersion env parent (ref_ComponentName ref) (ref_Version ref) = Inr (Some rcv) \<and>
      ConvertFrom env rcv = Inr cd \<and>
      constructComponentName env (ref_ComponentName ref) (ref_Version ref) (ref_ExtraIdentity ref) =
        Inr componentName \<and>
      rootOwnerReference env parent = Some owner")
  case False
  from parseReference_early [OF False, of st] assms show ?thesis
    by (auto simp add: grows_for_def record_call_def)
next
  case True
  then obtain rcv cd componentName owner where
    f: "GetComponentVersion env parent (ref_ComponentName ref) (ref_Version ref) = Inr (Some rcv)"
    and c: "ConvertFrom env rcv = Inr cd"
    and n: "constructComponentName env (ref_ComponentName ref) (ref_Version ref) (ref_ExtraIdentity ref) =
        Inr componentName"
    and o: "rootOwnerReference env parent = Some owner" by blast
  obtain st2 r2 where cu: "CreateOrUpdate env
        \<lparr>d_Namespace = cv_Namespace parent, d_Name = componentName,
         d_CreationTimestamp = None, d_OwnerReferences = [owner],
         d_Spec = \<lparr>cds_ComponentVersionSpec = Some (v3_Spec cd),
                   cds_Version = ref_Version ref\<rparr>\<rparr>
        (\<lambda>d. Inr d) (record_call (Fetch (ref_ComponentName ref) (ref_Version ref)) st) = (st2, r2)"
    by (cases "CreateOrUpdate env
        \<lparr>d_Namespace = cv_Namespace parent, d_Name = componentName,
         d_CreationTimestamp = None, d_OwnerReferences = [owner],
         d_Spec = \<lparr>cds_ComponentVersionSpec = Some (v3_Spec cd),
                   cds_Version = ref_Version ref\<rparr>\<rparr>
        (\<lambda>d. Inr d) (record_call (Fetch (ref_ComponentName ref) (ref_Version ref)) st)")
  from assms cu have st: "st1 = st2"
    by (auto simp add: parseReference_unfold [OF f c n o] split: sum.splits prod.splits)
  have new: "k = (cv_Namespace parent, componentName) \<and>
        d = \<lparr>d_Namespace = cv_Namespace parent, d_Name = componentName,
         d_CreationTimestamp = Some (Now env), d_OwnerReferences = [owner],
         d_Spec = \<lparr>cds_ComponentVersionSpec = Some (v3_Spec cd),
                   cds_Version = ref_Version ref\<rparr>\<rparr>"
    if "componentDescriptors st k = None" and "componentDescriptors st2 k = Some d" for k d
    using CreateOrUpdate_noop(3) [OF cu, of k d] that by (simp add: record_call_def)
  have old: "componentDescriptors st2 k = componentDescriptors st k"
    if "componentDescriptors st k \<noteq> None" for k
    using CreateOrUpdate_noop(2) [OF cu, of k] that by (simp add: record_call_def)
  have cvs: "componentVersions st2 = componentVersions st"
    using CreateOrUpdate_noop(1) [OF cu] by (simp add: record_call_def)
  show ?thesis
    unfolding grows_for_def st
  proof (intro conjI allI impI)
    show "componentVersions st2 = componentVersions st" by (rule cvs)
  next
    fix k assume "componentDescriptors st k \<noteq> None"
    then show "componentDescriptors st2 k = componentDescriptors st k" by (rule old)
  next
    fix k d assume a: "componentDescriptors st k = None" "componentDescriptors st2 k = Some d"
    from new [OF a] show "(d_Namespace d, d_Name d) = k" by simp
    from new [OF a] show "d_Namespace d = cv_Namespace parent" by simp
    from new [OF a] show "d_CreationTimestamp d \<noteq> None" by simp
    from new [OF a] o show "\<exists>owner. rootOwnerReference env parent = Some owner \<and>
        d_OwnerReferences d = [owner]" by simp
  qed
qed

lemma parseReference_calls:
  assumes "parseReference env parent ref st = (st1, r)"
  shows "\<exists>cs. calls st1 = calls st @ Fetch (ref_ComponentName ref) (ref_Version ref) # cs"
  using assms
  by (auto simp add: parseReference_def Let_def SetOwnerReference_def
      CreateOrUpdate_def client_Get_def client_Create_def client_Update_def
      mutate_def record_call_def split: option.splits if_splits sum.splits prod.splits)

lemma grows_for_refl: "grows_for env parent st st"
  by (simp add: grows_for_def)

lemma grows_for_trans:
  "grows_for env parent st st1 \<Longrightarrow> grows_for env parent st1 st2 \<Longrightarrow> grows_for env parent st st2"
  unfolding grows_for_def
  by (smt (verit, best) option.exhaust)

lemma grows_for_wf: "grows_for env parent st st1 \<Longrightarrow> wf_cluster st \<Longrightarrow> wf_cluster st1"
  unfolding grows_for_def wf_cluster_def
  by (metis option.exhaust)

subsection \<open>The loop\<close>

lemma parseReferences_loop_grows:
  assumes "parseReferences_loop env parent refs result st = Some y"
  shows "grows_for env parent st (fst y)"
  using assms
proof (induction rule: parseReferences_loop_induct)
  case (Nil result st)
  show ?case by (simp add: grows_for_refl)
next
  case (Err ref rest result st st1 e)
  then show ?case by (simp add: parseReference_grows)
next
  case (Leaf ref rest result st st1 rcv reference y)
  from parseReference_grows [OF Leaf.hyps(1)] Leaf.IH show ?case by (rule grows_for_trans)
next
  case (NodeErr ref rest result st st1 rcv reference st2 e)
  from parseReference_grows [OF NodeErr.hyps(1)] NodeErr.IH show ?case
    by (auto intro: grows_for_trans)
next
  case (Node ref rest result st st1 rcv reference st2 out y)
  from parseReference_grows [OF Node.hyps(1)] Node.IH(1) have "grows_for env parent st st2"
    by (auto intro: grows_for_trans)
  then show ?case using Node.IH(2) by (rule grows_for_trans)
qed

lemma parseReferences_loop_calls:
  assumes "parseReferences_loop env parent refs result st = Some y"
  shows "\<exists>cs. calls (fst y) = calls st @ cs \<and> (refs \<noteq> [] \<longrightarrow> cs \<noteq> [])"
  using assms
proof (induction rule: parseReferences_loop_induct)
  case (Nil result st)
  show ?case by simp
next
  case (Err ref rest result st st1 e)
  from parseReference_calls [OF Err.hyps(1)] show ?case by auto
next
  case (Leaf ref rest result st st1 rcv reference y)
  from parseReference_calls [OF Leaf.hyps(1)] Leaf.IH show ?case by auto
next
  case (NodeErr ref rest result st st1 rcv reference st2 e)
  from parseReference_calls [OF NodeErr.hyps(1)] NodeErr.IH show ?case by auto
next
  case (Node ref rest result st st1 rcv reference st2 out y)
  from parseReference_calls [OF Node.hyps(1)] Node.IH(1) Node.IH(2) show ?case by auto
qed

lemma parseReferences_loop_mirrors:
  assumes "parseReferences_loop env parent refs result st = Some y"
  shows "\<forall>out. snd y = Inr out \<longrightarrow> (\<exists>new. out = result @ new \<and> mirrors env parent refs new)"
  using assms
proof (induction rule: parseReferences_loop_induct)
  case (Nil result st)
  show ?case by (simp add: mirrors_Nil)
next
  case (Err ref rest result st st1 e)
  show ?case by simp
next
  case (Leaf ref rest result st st1 rcv reference y)
  from parseReference_Inr [OF Leaf.hyps(1)] obtain componentName where
    f: "GetComponentVersion env parent (ref_ComponentName ref) (ref_Version ref) = Inr (Some rcv)"
    and n: "constructComponentName env (ref_ComponentName ref) (ref_Version ref) (ref_ExtraIdentity ref) =
        Inr componentName"
    and r: "reference = Reference (ref_Name ref) (ref_Version ref) [] (ref_ExtraIdentity ref)
                    (cv_Namespace parent, componentName)" by blast
  have k: "mirrors env parent (cd_References rcv) []" using Leaf.hyps(2) by (simp add: mirrors_Nil)
  show ?case
  proof (intro allI impI)
    fix out assume "snd y = Inr out"
    with Leaf.IH obtain new where o: "out = (result @ [reference]) @ new"
      and m: "mirrors env parent rest new" by blast
    from mirrors_Cons [OF f n k m] o r
    show "\<exists>new. out = result @ new \<and> mirrors env parent (ref # rest) new" by auto
  qed
next
  case (NodeErr ref rest result st st1 rcv reference st2 e)
  show ?case by simp
next
  case (Node ref rest result st st1 rcv reference st2 out y)
  from parseReference_Inr [OF Node.hyps(1)] obtain componentName where
    f: "GetComponentVersion env parent (ref_ComponentName ref) (ref_Version ref) = Inr (Some rcv)"
    and n: "constructComponentName env (ref_ComponentName ref) (ref_Version ref) (ref_ExtraIdentity ref) =
        Inr componentName"
    and r: "reference = Reference (ref_Name ref) (ref_Version ref) [] (ref_ExtraIdentity ref)
                    (cv_Namespace parent, componentName)" by blast
  from Node.IH(1) have k: "mirrors env parent (cd_References rcv) out" by simp
  show ?case
  proof (intro allI impI)
    fix out' assume "snd y = Inr out'"
    with Node.IH(2) obtain new where
      o: "out' = (result @ [Reference (Name reference) (Version reference) out
                       (ExtraIdentity reference) (ComponentDescriptorRef reference)]) @ new"
      and m: "mirrors env parent rest new" by blast
    from mirrors_Cons [OF f n k m] o r
    show "\<exists>new. out' = result @ new \<and> mirrors env parent (ref # rest) new" by auto
  qed
qed

lemma mirrors_names:
  "mirrors env parent refs out \<Longrightarrow>
     map Name out = map ref_Name refs \<and> map Version out = map ref_Version refs \<and>
     map ExtraIdentity out = map ref_ExtraIdentity refs"
  by (induction rule: mirrors.induct) auto

subsection \<open>The reconciliation\<close>

lemma reconcile_success:
  assumes "reconcile env obj st = Some (st', obj', res, None)"
  shows "\<exists>cv cd componentName st2 op d1.
     GetComponentVersion env obj (spec_Component obj) (spec_Version obj) = Inr (Some cv) \<and>
     ConvertFrom env cv = Inr cd \<and>
     constructComponentName env (v3_Name cd) (v3_Version cd) Map.empty = Inr componentName \<and>
     CreateOrUpdate env (rootDescriptor obj componentName) (rootMutateFn env obj cd)
       (record_call (Fetch (spec_Component obj) (spec_Version obj)) st) = (st2, Inr (op, d1)) \<and>
     res = requeue obj \<and>
     (if \<not> spec_References_Expand obj then st' = st2 \<and> obj' = obj
      else (\<exists>st3 refs. parseReferences env obj (cd_References cv) st2 = Some (st3, Inr refs) \<and>
              NewHelperErr env = None \<and>
              obj' = obj\<lparr>status_ComponentDescriptor :=
                          Reference (v3_Name cd) (v3_Version cd) refs Map.empty
                            (d_Namespace d1, d_Name d1)\<rparr> \<and>
              Patch env obj obj' st3 = (st', None)))"
  using assms
  by (auto simp add: reconcile_def Let_def rootDescriptor_def NewHelper_def
      split: sum.splits prod.splits option.splits if_splits)

lemma wf_cluster_root:
  "wf_cluster st \<Longrightarrow> componentVersions st k = Some obj \<Longrightarrow> (cv_Namespace obj, cv_Name obj) = k"
  unfolding wf_cluster_def by blast

lemma wf_cluster_descriptor:
  "wf_cluster st \<Longrightarrow> componentDescriptors st k = Some d \<Longrightarrow>
     (d_Namespace d, d_Name d) = k \<and> d_CreationTimestamp d \<noteq> None"
  unfolding wf_cluster_def by blast

lemma Reconcile_success:
  assumes "Reconcile env req st = Some (st', res, None)"
    and "componentVersions st req = Some component"
  shows "\<exists>obj'. reconcile env component (record_call (Verify req) (record_call (GetRoot req) st)) =
           Some (st', obj', res, None)"
  using assms
  by (auto simp add: Reconcile_def client_GetRoot_def Let_def
      split: option.splits prod.splits if_splits)

lemma CreateOrUpdate_frame:
  assumes "CreateOrUpdate env obj f st = (st1, r)"
  shows "componentVersions st1 = componentVersions st"
    and "k \<noteq> (d_Namespace obj, d_Name obj) \<Longrightarrow> componentDescriptors st1 k = componentDescriptors st k"
  using assms
  by (auto simp add: CreateOrUpdate_def client_Get_def client_Create_def client_Update_def
      mutate_def record_call_def Let_def split: option.splits if_splits sum.splits prod.splits)

lemma Patch_status:
  assumes "Patch env before obj st = (st', None)"
    and "componentVersions st (cv_Namespace obj, cv_Name obj) = Some before"
  shows "componentVersions st' (cv_Namespace obj, cv_Name obj) =
           Some (before\<lparr>status_ComponentDescriptor := status_ComponentDescriptor obj\<rparr>)"
    and "componentDescriptors st' = componentDescriptors st"
  using assms
  by (auto simp add: Patch_def record_call_def Let_def split: option.splits if_splits)

lemma reconcile_stages:
  assumes "reconcile env obj st = Some (st', obj', res, err)"
  shows "st' = record_call (Fetch (spec_Component obj) (spec_Version obj)) st \<or>
    (\<exists>cv cd componentName st2 r.
       GetComponentVersion env obj (spec_Component obj) (spec_Version obj) = Inr (Some cv) \<and>
       ConvertFrom env cv = Inr cd \<and>
       constructComponentName env (v3_Name cd) (v3_Version cd) Map.empty = Inr componentName \<and>
       CreateOrUpdate env (rootDescriptor obj componentName) (rootMutateFn env obj cd)
         (record_call (Fetch (spec_Component obj) (spec_Version obj)) st) = (st2, r) \<and>
       (st' = st2 \<or>
        (\<exists>st3 r3. spec_References_Expand obj \<and>
           parseReferences env obj (cd_References cv) st2 = Some (st3, r3) \<and>
           (st' = st3 \<or> (\<exists>after e. Patch env obj after st3 = (st', e))))))"
proof (cases "GetComponentVersion env obj (spec_Component obj) (spec_Version obj)")
  case (Inl e)
  with assms show ?thesis by (auto simp add: reconcile_def Let_def)
next
  case (Inr x)
  show ?thesis
  proof (cases x)
    case None
    with assms Inr show ?thesis by (auto simp add: reconcile_def Let_def)
  next
  case (Some cv)
  note f = Inr [unfolded Some]
  show ?thesis
  proof (cases "ConvertFrom env cv")
    case (Inl e)
    with assms f show ?thesis by (auto simp add: reconcile_def Let_def)
  next
    case c: (Inr cd)
    show ?thesis
    proof (cases "constructComponentName env (v3_Name cd) (v3_Version cd) Map.empty")
      case (Inl e)
      with assms f c show ?thesis by (auto simp add: reconcile_def Let_def)
    next
      case n: (Inr componentName)
      obtain st2 r where cu: "CreateOrUpdate env (rootDescriptor obj componentName)
         (rootMutateFn env obj cd)
         (record_call (Fetch (spec_Component obj) (spec_Version obj)) st) = (st2, r)"
        by (cases "CreateOrUpdate env (rootDescriptor obj componentName)
         (rootMutateFn env obj cd)
         (record_call (Fetch (spec_Component obj) (spec_Version obj)) st)")
      have "st' = st2 \<or>
        (\<exists>st3 r3. spec_References_Expand obj \<and>
           parseReferences env obj (cd_References cv) st2 = Some (st3, r3) \<and>
           (st' = st3 \<or> (\<exists>after e. Patch env obj after st3 = (st', e))))"
        using assms f c n cu
        by (auto simp add: reconcile_def Let_def rootDescriptor_def NewHelper_def
            split: sum.splits prod.splits option.splits if_splits)
      with f c n cu show ?thesis by blast
    qed
  qed
  qed
qed

lemma rootDescriptor_key [simp]:
  "d_Namespace (rootDescriptor obj n) = cv_Namespace obj" "d_Name (rootDescriptor obj n) = n"
  by (simp_all add: rootDescriptor_def)

lemma rootMutateFn_new:
  "rootOwnerReference env obj = Some owner \<Longrightarrow>
   rootMutateFn env obj cd (rootDescriptor obj n) =
     Inr \<lparr>d_Namespace = cv_Namespace obj, d_Name = n, d_CreationTimestamp = None,
          d_OwnerReferences = [owner],
          d_Spec = \<lparr>cds_ComponentVersionSpec = Some (v3_Spec cd), cds_Version = v3_Version cd\<rparr>\<rparr>"
  by (auto simp add: rootMutateFn_def rootDescriptor_def SetOwnerReference_def
      rootOwnerReference_def validateOwner_def split: option.splits)

lemma rootMutateFn_new_error:
  "rootOwnerReference env obj = None \<Longrightarrow> \<exists>e. rootMutateFn env obj cd (rootDescriptor obj n) = Inl e"
  by (auto simp add: rootMutateFn_def rootDescriptor_def SetOwnerReference_def
      rootOwnerReference_def validateOwner_def split: option.splits)

lemma rootMutateFn_existing:
  "d_CreationTimestamp d \<noteq> None \<Longrightarrow>
   rootMutateFn env obj cd d =
     Inr (d\<lparr>d_Spec := \<lparr>cds_ComponentVersionSpec = Some (v3_Spec cd), cds_Version = v3_Version cd\<rparr>\<rparr>)"
  by (auto simp add: rootMutateFn_def)

lemma rootMutateFn_spec:
  "rootMutateFn env obj cd d = Inr d1 \<Longrightarrow>
   d_Spec d1 = \<lparr>cds_ComponentVersionSpec = Some (v3_Spec cd), cds_Version = v3_Version cd\<rparr>"
  by (auto simp add: rootMutateFn_def split: if_splits sum.splits)

lemma CreateOrUpdate_Inr:
  assumes "CreateOrUpdate env obj f st = (st2, Inr (op, d1))"
  shows "componentDescriptors st2 (d_Namespace obj, d_Name obj) = Some d1 \<or>
         (\<exists>d. componentDescriptors st2 (d_Namespace obj, d_Name obj) =
                 Some (d\<lparr>d_CreationTimestamp := Some (Now env)\<rparr>) \<and>
               d1 = d\<lparr>d_CreationTimestamp := Some (Now env)\<rparr>)"
    and "(d_Namespace d1, d_Name d1) = (d_Namespace obj, d_Name obj)"
    and "GetErr env (d_Namespace obj, d_Name obj) = None"
    and "\<exists>d. (d = obj \<or> componentDescriptors st (d_Namespace obj, d_Name obj) = Some d) \<and>
             (f d = Inr d1 \<or> (\<exists>d'. f d = Inr d' \<and> d1 = d'\<lparr>d_CreationTimestamp := Some (Now env)\<rparr>))"
  using assms
  by (auto simp add: CreateOrUpdate_def client_Get_def client_Create_def client_Update_def
      mutate_def record_call_def Let_def
      split: option.splits if_splits sum.splits prod.splits)

lemma CreateOrUpdate_root_result:
  assumes "CreateOrUpdate env (rootDescriptor obj n) (rootMutateFn env obj cd) st = (st2, Inr (op, d1))"
  shows "componentDescriptors st2 (cv_Namespace obj, n) = Some d1"
    and "d_Spec d1 = \<lparr>cds_ComponentVersionSpec = Some (v3_Spec cd), cds_Version = v3_Version cd\<rparr>"
    and "(d_Namespace d1, d_Name d1) = (cv_Namespace obj, n)"
    and "GetErr env (cv_Namespace obj, n) = None"
proof -
  from CreateOrUpdate_Inr(1) [OF assms] show "componentDescriptors st2 (cv_Namespace obj, n) = Some d1"
    by auto
  from CreateOrUpdate_Inr(2) [OF assms] show "(d_Namespace d1, d_Name d1) = (cv_Namespace obj, n)"
    by simp
  from CreateOrUpdate_Inr(3) [OF assms] show "GetErr env (cv_Namespace obj, n) = None" by simp
  from CreateOrUpdate_Inr(4) [OF assms]
  show "d_Spec d1 = \<lparr>cds_ComponentVersionSpec = Some (v3_Spec cd), cds_Version = v3_Version cd\<rparr>"
    by (auto dest: rootMutateFn_spec)
qed

lemma CreateOrUpdate_found:
  assumes "componentDescriptors st (d_Namespace obj, d_Name obj) = Some d0"
    and "f d0 = Inr d2" and "(d_Namespace d2, d_Name d2) = (d_Namespace obj, d_Name obj)"
    and "CreateOrUpdate env obj f st = (st2, r)"
  shows "componentDescriptors st2 = componentDescriptors st \<or>
         componentDescriptors st2 = (componentDescriptors st)((d_Namespace obj, d_Name obj) \<mapsto> d2)"
    and "r = Inr (op, d1) \<Longrightarrow> d1 = d2"
  using assms
  by (auto simp add: CreateOrUpdate_def client_Get_def client_Create_def client_Update_def
      mutate_def record_call_def Let_def
      split: option.splits if_splits sum.splits prod.splits)

lemma CreateOrUpdate_missing:
  assumes "componentDescriptors st (d_Namespace obj, d_Name obj) = None"
    and "CreateOrUpdate env obj f st = (st2, r)"
  shows "componentDescriptors st2 = componentDescriptors st \<or>
         (\<exists>d2. f obj = Inr d2 \<and>
            componentDescriptors st2 =
              (componentDescriptors st)((d_Namespace obj, d_Name obj) \<mapsto>
                 d2\<lparr>d_CreationTimestamp := Some (Now env)\<rparr>))"
  using assms
  by (auto simp add: CreateOrUpdate_def client_Get_def client_Create_def client_Update_def
      mutate_def record_call_def Let_def
      split: option.splits if_splits sum.splits prod.splits)

lemma CreateOrUpdate_calls:
  assumes "CreateOrUpdate env obj f st = (st2, r)"
  shows "\<exists>cs. calls st2 = calls st @ cs \<and> (\<forall>k. PatchStatus k \<notin> set cs)"
  using assms
  by (auto simp add: CreateOrUpdate_def client_Get_def client_Create_def client_Update_def
      mutate_def record_call_def Let_def
      split: option.splits if_splits sum.splits prod.splits)

lemma record_call_simps [simp]:
  "componentVersions (record_call c st) = componentVersions st"
  "componentDescriptors (record_call c st) = componentDescriptors st"
  "calls (record_call c st) = calls st @ [c]"
  by (simp_all add: record_call_def)

lemma wf_cluster_cong:
  "componentVersions st' = componentVersions st \<Longrightarrow>
   componentDescriptors st' = componentDescriptors st \<Longrightarrow> wf_cluster st \<Longrightarrow> wf_cluster st'"
  by (simp add: wf_cluster_def)

lemma ownership_kept_same:
  "componentDescriptors st' = componentDescriptors st \<Longrightarrow> ownership_kept env root st st'"
  by (simp add: ownership_kept_def)

lemma ownership_kept_old:
  "ownership_kept env root st st' \<Longrightarrow> componentDescriptors st k = Some d \<Longrightarrow>
   \<exists>d'. componentDescriptors st' k = Some d' \<and> d_OwnerReferences d' = d_OwnerReferences d"
  unfolding ownership_kept_def by blast

lemma ownership_kept_new:
  "ownership_kept env root st st' \<Longrightarrow> componentDescriptors st k = None \<Longrightarrow>
   componentDescriptors st' k = Some d' \<Longrightarrow>
   \<exists>owner. rootOwnerReference env root = Some owner \<and> d_OwnerReferences d' = [owner]"
  unfolding ownership_kept_def by blast

lemma ownership_kept_trans:
  assumes "ownership_kept env root st st1" and "ownership_kept env root st1 st2"
  shows "ownership_kept env root st st2"
  unfolding ownership_kept_def
proof (intro conjI allI impI)
  fix k d assume "componentDescriptors st k = Some d"
  with ownership_kept_old [OF assms(1), of k d] obtain d1 where
    "componentDescriptors st1 k = Some d1" "d_OwnerReferences d1 = d_OwnerReferences d" by auto
  with ownership_kept_old [OF assms(2), of k d1]
  show "\<exists>d'. componentDescriptors st2 k = Some d' \<and>
      d_OwnerReferences d' = d_OwnerReferences d" by auto
next
  fix k d' assume a: "componentDescriptors st k = None" "componentDescriptors st2 k = Some d'"
  show "\<exists>owner. rootOwnerReference env root = Some owner \<and> d_OwnerReferences d' = [owner]"
  proof (cases "componentDescriptors st1 k")
    case None
    from ownership_kept_new [OF assms(2) None a(2)] show ?thesis .
  next
    case (Some d1)
    from ownership_kept_new [OF assms(1) a(1) Some] obtain owner where
      o: "rootOwnerReference env root = Some owner" "d_OwnerReferences d1 = [owner]" by blast
    from ownership_kept_old [OF assms(2) Some] a(2)
    have "d_OwnerReferences d' = d_OwnerReferences d1" by auto
    with o show ?thesis by simp
  qed
qed

lemma grows_for_ownership_kept:
  "grows_for env root st st' \<Longrightarrow> ownership_kept env root st st'"
  unfolding grows_for_def ownership_kept_def by force

lemma Patch_frame:
  "Patch env before obj st = (st', e) \<Longrightarrow> componentDescriptors st' = componentDescriptors st"
  by (auto simp add: Patch_def Let_def split: if_splits option.splits)


lemma ownership_kept_update_existing:
  assumes "componentDescriptors st key = Some d0" and "d_OwnerReferences d = d_OwnerReferences d0"
    and "componentDescriptors st2 = (componentDescriptors st)(key \<mapsto> d)"
  shows "ownership_kept env root st st2"
  unfolding ownership_kept_def assms(3) using assms(1,2) by auto

lemma ownership_kept_update_new:
  assumes "componentDescriptors st key = None" and "rootOwnerReference env root = Some owner"
    and "d_OwnerReferences d = [owner]"
    and "componentDescriptors st2 = (componentDescriptors st)(key \<mapsto> d)"
  shows "ownership_kept env root st st2"
  unfolding ownership_kept_def assms(4) using assms(1,2,3) by auto

lemma wf_cluster_update:
  assumes "wf_cluster st" and "componentVersions st2 = componentVersions st"
    and "componentDescriptors st2 = (componentDescriptors st)(key \<mapsto> d)"
    and "(d_Namespace d, d_Name d) = key" and "d_CreationTimestamp d \<noteq> None"
  shows "wf_cluster st2"
  using assms(1,4,5) unfolding wf_cluster_def assms(2) assms(3) by auto

lemma root_step:
  assumes wf: "wf_cluster st"
    and cu: "CreateOrUpdate env (rootDescriptor obj n) (rootMutateFn env obj cd) st = (st2, r)"
  shows "ownership_kept env obj st st2" and "wf_cluster st2"
proof -
  let ?key = "(cv_Namespace obj, n)"
  let ?spec = "\<lparr>cds_ComponentVersionSpec = Some (v3_Spec cd), cds_Version = v3_Version cd\<rparr>"
  have cvs: "componentVersions st2 = componentVersions st"
    by (rule CreateOrUpdate_frame(1) [OF cu])
  have same: "ownership_kept env obj st st2 \<and> wf_cluster st2"
    if "componentDescriptors st2 = componentDescriptors st"
    using that cvs wf ownership_kept_same [of st2 st env obj] wf_cluster_cong [of st2 st]
    by blast
  have "ownership_kept env obj st st2 \<and> wf_cluster st2"
  proof (cases "componentDescriptors st ?key")
    case None
    then have n': "componentDescriptors st
        (d_Namespace (rootDescriptor obj n), d_Name (rootDescriptor obj n)) = None" by simp
    from CreateOrUpdate_missing [OF n' cu]
    have "componentDescriptors st2 = componentDescriptors st \<or>
      (\<exists>d2. rootMutateFn env obj cd (rootDescriptor obj n) = Inr d2 \<and>
          componentDescriptors st2 =
             (componentDescriptors st)(?key \<mapsto> d2\<lparr>d_CreationTimestamp := Some (Now env)\<rparr>))"
      by simp
    then show ?thesis
    proof (elim disjE exE conjE)
      assume "componentDescriptors st2 = componentDescriptors st"
      then show ?thesis by (rule same)
    next
      fix d2 assume m: "rootMutateFn env obj cd (rootDescriptor obj n) = Inr d2"
        and u: "componentDescriptors st2 =
             (componentDescriptors st)(?key \<mapsto> d2\<lparr>d_CreationTimestamp := Some (Now env)\<rparr>)"
      from m obtain owner where o: "rootOwnerReference env obj = Some owner"
        using rootMutateFn_new_error [of env obj cd n] by (cases "rootOwnerReference env obj") auto
      from rootMutateFn_new [OF o, of cd n] m
      have d2: "d2 = \<lparr>d_Namespace = cv_Namespace obj, d_Name = n, d_CreationTimestamp = None,
          d_OwnerReferences = [owner], d_Spec = ?spec\<rparr>" by simp
      have "ownership_kept env obj st st2"
        by (rule ownership_kept_update_new [OF None o _ u]) (simp add: d2)
      moreover have "wf_cluster st2"
        by (rule wf_cluster_update [OF wf cvs u]) (simp_all add: d2)
      ultimately show ?thesis by simp
    qed
  next
    case (Some d0)
    from wf_cluster_descriptor [OF wf Some]
    have k: "(d_Namespace d0, d_Name d0) = ?key" and t: "d_CreationTimestamp d0 \<noteq> None" by simp_all
    have m: "rootMutateFn env obj cd d0 = Inr (d0\<lparr>d_Spec := ?spec\<rparr>)"
      by (rule rootMutateFn_existing [OF t])
    have s': "componentDescriptors st
        (d_Namespace (rootDescriptor obj n), d_Name (rootDescriptor obj n)) = Some d0"
      using Some by simp
    have k': "(d_Namespace (d0\<lparr>d_Spec := ?spec\<rparr>), d_Name (d0\<lparr>d_Spec := ?spec\<rparr>)) =
        (d_Namespace (rootDescriptor obj n), d_Name (rootDescriptor obj n))"
      using k by simp
    from CreateOrUpdate_found(1) [OF s' m k' cu]
    have "componentDescriptors st2 = componentDescriptors st \<or>
         componentDescriptors st2 = (componentDescriptors st)(?key \<mapsto> d0\<lparr>d_Spec := ?spec\<rparr>)"
      by simp
    then show ?thesis
    proof
      assume "componentDescriptors st2 = componentDescriptors st"
      then show ?thesis by (rule same)
    next
      assume u: "componentDescriptors st2 = (componentDescriptors st)(?key \<mapsto> d0\<lparr>d_Spec := ?spec\<rparr>)"
      have "ownership_kept env obj st st2"
        by (rule ownership_kept_update_existing [OF Some _ u]) simp
      moreover have "wf_cluster st2"
        using k t by (intro wf_cluster_update [OF wf cvs u]) simp_all
      ultimately show ?thesis by simp
    qed
  qed
  then show "ownership_kept env obj st st2" and "wf_cluster st2" by simp_all
qed

lemma grows_for_old:
  assumes "grows_for env parent st st'" and "componentDescriptors st k = Some d"
  shows "componentDescriptors st' k = Some d"
proof -
  from assms(1) have "\<forall>k. componentDescriptors st k \<noteq> None \<longrightarrow>
        componentDescriptors st' k = componentDescriptors st k"
    unfolding grows_for_def by (elim conjE)
  then have "componentDescriptors st k \<noteq> None \<longrightarrow>
        componentDescriptors st' k = componentDescriptors st k" by (rule spec)
  with assms(2) show ?thesis by simp
qed

lemma reconcile_success_state:
  assumes "reconcile env obj st = Some (st', obj', res, None)"
  shows "\<exists>cv cd componentName st2 op d1.
     GetComponentVersion env obj (spec_Component obj) (spec_Version obj) = Inr (Some cv) \<and>
     ConvertFrom env cv = Inr cd \<and>
     constructComponentName env (v3_Name cd) (v3_Version cd) Map.empty = Inr componentName \<and>
     CreateOrUpdate env (rootDescriptor obj componentName) (rootMutateFn env obj cd)
       (record_call (Fetch (spec_Component obj) (spec_Version obj)) st) = (st2, Inr (op, d1)) \<and>
     (\<forall>k d. componentDescriptors st2 k = Some d \<longrightarrow> componentDescriptors st' k = Some d)"
proof -
  from reconcile_success [OF assms] obtain cv cd componentName st2 op d1 where
    f: "GetComponentVersion env obj (spec_Component obj) (spec_Version obj) = Inr (Some cv)"
    and c: "ConvertFrom env cv = Inr cd"
    and n: "constructComponentName env (v3_Name cd) (v3_Version cd) Map.empty = Inr componentName"
    and cu: "CreateOrUpdate env (rootDescriptor obj componentName) (rootMutateFn env obj cd)
       (record_call (Fetch (spec_Component obj) (spec_Version obj)) st) = (st2, Inr (op, d1))"
    and rest: "if \<not> spec_References_Expand obj then st' = st2 \<and> obj' = obj
      else (\<exists>st3 refs. parseReferences env obj (cd_References cv) st2 = Some (st3, Inr refs) \<and>
              NewHelperErr env = None \<and>
              obj' = obj\<lparr>status_ComponentDescriptor :=
                          Reference (v3_Name cd) (v3_Version cd) refs Map.empty
                            (d_Namespace d1, d_Name d1)\<rparr> \<and>
              Patch env obj obj' st3 = (st', None))"
    by (elim exE conjE) (rule that)
  have "\<forall>k d. componentDescriptors st2 k = Some d \<longrightarrow> componentDescriptors st' k = Some d"
  proof (cases "spec_References_Expand obj")
    case False
    with rest show ?thesis by simp
  next
    case True
    with rest obtain st3 refs where
      p: "parseReferences env obj (cd_References cv) st2 = Some (st3, Inr refs)"
      and pa: "Patch env obj obj' st3 = (st', None)" by auto
    from parseReferences_loop_grows [OF p [unfolded parseReferences_def]]
    have g: "grows_for env obj st2 st3" by simp
    from Patch_frame [OF pa] grows_for_old [OF g] show ?thesis by simp
  qed
  with f c n cu show ?thesis
    by (intro exI [of _ cv] exI [of _ cd] exI [of _ componentName] exI [of _ st2]
        exI [of _ op] exI [of _ d1] conjI)
qed

lemma reconcile_noexpand:
  assumes "\<not> spec_References_Expand obj"
    and "GetComponentVersion env obj (spec_Component obj) (spec_Version obj) = Inr (Some cv)"
    and "ConvertFrom env cv = Inr cd"
    and "constructComponentName env (v3_Name cd) (v3_Version cd) Map.empty = Inr componentName"
    and "CreateOrUpdate env (rootDescriptor obj componentName) (rootMutateFn env obj cd)
       (record_call (Fetch (spec_Component obj) (spec_Version obj)) st) = (st2, r)"
  shows "reconcile env obj st =
     Some (st2, obj, requeue obj,
       (case r of Inl e \<Rightarrow> Some (Wrapf ''failed to create or update component descriptor'' e)
        | Inr x \<Rightarrow> None))"
  using assms
  by (auto simp add: reconcile_def Let_def rootDescriptor_def split: sum.splits)

lemma reconcile_early:
  assumes "\<not> (\<exists>cv cd componentName.
      GetComponentVersion env obj (spec_Component obj) (spec_Version obj) = Inr (Some cv) \<and>
      ConvertFrom env cv = Inr cd \<and>
      constructComponentName env (v3_Name cd) (v3_Version cd) Map.empty = Inr componentName)"
  shows "\<exists>res e. reconcile env obj st =
     Some (record_call (Fetch (spec_Component obj) (spec_Version obj)) st, obj, res, Some e)"
  using assms
  by (auto simp add: reconcile_def Let_def split: sum.splits option.splits)

subsection \<open>Returning and not returning\<close>

lemma parseReferences_loop_Nil [simp]:
  "parseReferences_loop env parent [] result st = Some (st, Inr result)"
  by (subst parseReferences_loop.simps) simp

lemma parseReferences_loop_Cons:
  "parseReferences_loop env parent (ref # rest) result st =
     (case parseReference env parent ref st of
           (st1, Inl e) \<Rightarrow> Some (st1, Inl e)
         | (st1, Inr (rcv, reference)) \<Rightarrow>
            (if cd_References rcv \<noteq> [] then
               Option.bind (parseReferences_loop env parent (cd_References rcv) [] st1)
                 (\<lambda>(st2, r). case r of
                     Inl e \<Rightarrow> Some (st2, Inl e)
                   | Inr out \<Rightarrow>
                      parseReferences_loop env parent rest
                        (result @ [Reference (Name reference) (Version reference) out
                                     (ExtraIdentity reference) (ComponentDescriptorRef reference)])
                        st2)
             else parseReferences_loop env parent rest (result @ [reference]) st1))"
  by (subst parseReferences_loop.simps) simp

lemma parseReference_references_of:
  assumes "parseReference env parent ref st = (st1, Inr (rcv, reference))"
  shows "cd_References rcv = references_of env parent ref"
proof -
  from parseReference_Inr [OF assms]
  have "GetComponentVersion env parent (ref_ComponentName ref) (ref_Version ref) = Inr (Some rcv)"
    by (elim exE conjE)
  then show ?thesis by (simp add: references_of_def)
qed

lemma loop_returns_if_below_return:
  assumes "\<forall>c \<in> set refs. \<forall>result st. \<exists>y.
      parseReferences_loop env parent (references_of env parent c) result st = Some y"
  shows "\<exists>y. parseReferences_loop env parent refs result st = Some y"
  using assms
proof (induction refs arbitrary: result st)
  case Nil
  show ?case by simp
next
  case (Cons c rest)
  have below: "\<exists>y. parseReferences_loop env parent (references_of env parent c) result st = Some y"
    for result st using Cons.prems by simp
  have rest: "\<exists>y. parseReferences_loop env parent rest result st = Some y" for result st
    using Cons.IH Cons.prems by simp
  obtain st1 x where step: "parseReference env parent c st = (st1, x)"
    by (cases "parseReference env parent c st")
  show ?case
  proof (cases x)
    case (Inl e)
    with step show ?thesis by (simp add: parseReferences_loop_Cons)
  next
    case (Inr p)
    obtain rcv reference where p: "p = (rcv, reference)" by (cases p)
    note step' = step [unfolded Inr p]
    note kids = parseReference_references_of [OF step']
    show ?thesis
    proof (cases "cd_References rcv = []")
      case True
      from rest [of "result @ [reference]" st1] True step' show ?thesis
        by (simp add: parseReferences_loop_Cons)
    next
      case False
      from below [of "[]" st1] kids obtain st2 r2 where
        n: "parseReferences_loop env parent (cd_References rcv) [] st1 = Some (st2, r2)"
        by auto
      show ?thesis
      proof (cases r2)
        case (Inl e)
        with n False step' show ?thesis by (simp add: parseReferences_loop_Cons)
      next
        case (Inr out)
        from rest [of "result @ [Reference (Name reference) (Version reference) out
                       (ExtraIdentity reference) (ComponentDescriptorRef reference)]" st2]
          n Inr False step' show ?thesis by (simp add: parseReferences_loop_Cons)
      qed
    qed
  qed
qed

lemma acyclic_below_returns:
  assumes "wf (reference_graph env parent)"
  shows "\<exists>y. parseReferences_loop env parent (references_of env parent c) result st = Some y"
  using assms
proof (induction c arbitrary: result st rule: wf_induct_rule)
  case (less c)
  show ?case
  proof (rule loop_returns_if_below_return, intro ballI allI)
    fix c' result' st'
    assume "c' \<in> set (references_of env parent c)"
    then have "(c', c) \<in> reference_graph env parent" by (simp add: reference_graph_def)
    then show "\<exists>y. parseReferences_loop env parent (references_of env parent c') result' st' = Some y"
      by (rule less.IH)
  qed
qed

lemma acyclic_returns:
  assumes "wf (reference_graph env parent)"
  shows "\<exists>y. parseReferences env parent refs st = Some y"
  unfolding parseReferences_def
proof (rule loop_returns_if_below_return, intro ballI allI)
  fix c result st
  show "\<exists>y. parseReferences_loop env parent (references_of env parent c) result st = Some y"
    by (rule acyclic_below_returns [OF assms])
qed

lemma CreateOrUpdate_noop_succeeds:
  assumes "GetErr env (d_Namespace obj, d_Name obj) = None"
    and "CreateErr env (d_Namespace obj, d_Name obj) = None"
    and "wf_cluster st"
    and "CreateOrUpdate env obj (\<lambda>d. Inr d) st = (st1, x)"
  shows "\<not> isl x"
proof (cases "componentDescriptors st (d_Namespace obj, d_Name obj)")
  case None
  with assms(1,2,4) show ?thesis
    by (auto simp add: CreateOrUpdate_def client_Get_def client_Create_def mutate_def Let_def)
next
  case (Some d0)
  from wf_cluster_descriptor [OF assms(3) Some]
  have "(d_Namespace d0, d_Name d0) = (d_Namespace obj, d_Name obj)" by simp
  with Some assms(1,4) show ?thesis
    by (auto simp add: CreateOrUpdate_def client_Get_def mutate_def Let_def)
qed

lemma below_iff:
  "r \<in> below env parent refs \<longleftrightarrow> (\<exists>r0 \<in> set refs. (r, r0) \<in> (reference_graph env parent)\<^sup>*)"
  unfolding below_def by (rule mem_Collect_eq)

lemma belowI:
  "r0 \<in> set refs \<Longrightarrow> (r, r0) \<in> (reference_graph env parent)\<^sup>* \<Longrightarrow> r \<in> below env parent refs"
  unfolding below_iff by (rule bexI)

lemma below_head: "ref \<in> below env parent (ref # rest)"
  by (rule belowI [of ref]) simp_all

lemma below_rest: "below env parent rest \<subseteq> below env parent (ref # rest)"
proof
  fix r assume "r \<in> below env parent rest"
  then obtain r0 where r0: "r0 \<in> set rest" and p: "(r, r0) \<in> (reference_graph env parent)\<^sup>*"
    unfolding below_iff by (elim bexE)
  from r0 have "r0 \<in> set (ref # rest)" by simp
  then show "r \<in> below env parent (ref # rest)" using p by (rule belowI)
qed

lemma below_children:
  "below env parent (references_of env parent ref) \<subseteq> below env parent (ref # rest)"
proof
  fix r assume "r \<in> below env parent (references_of env parent ref)"
  then obtain c where c: "c \<in> set (references_of env parent ref)"
    and r: "(r, c) \<in> (reference_graph env parent)\<^sup>*"
    unfolding below_iff by (elim bexE)
  from c have "(c, ref) \<in> reference_graph env parent" by (simp add: reference_graph_def)
  with r have p: "(r, ref) \<in> (reference_graph env parent)\<^sup>*" by (rule rtrancl_into_rtrancl)
  have "ref \<in> set (ref # rest)" by simp
  then show "r \<in> below env parent (ref # rest)" using p by (rule belowI)
qed

lemma parseReference_resolves:
  assumes res: "resolves env parent ref" and wf: "wf_cluster st"
    and step: "parseReference env parent ref st = (st1, x)"
  shows "\<not> isl x"
proof -
  from res obtain rcv where
    f: "GetComponentVersion env parent (ref_ComponentName ref) (ref_Version ref) = Inr (Some rcv)"
    and "\<not> isl (ConvertFrom env rcv)"
    by (auto simp add: resolves_def split: sum.splits option.splits)
  then obtain cd where c: "ConvertFrom env rcv = Inr cd"
    by (cases "ConvertFrom env rcv") simp_all
  from res obtain componentName where
    n: "constructComponentName env (ref_ComponentName ref) (ref_Version ref) (ref_ExtraIdentity ref) =
        Inr componentName"
    and ge: "GetErr env (cv_Namespace parent, componentName) = None"
    and ce: "CreateErr env (cv_Namespace parent, componentName) = None"
    by (auto simp add: resolves_def split: sum.splits)
  from res have "Scheme env \<noteq> None" by (simp add: resolves_def)
  then obtain owner where o: "rootOwnerReference env parent = Some owner"
    by (cases "Scheme env") (auto simp add: rootOwnerReference_def)
  let ?d = "\<lparr>d_Namespace = cv_Namespace parent, d_Name = componentName,
         d_CreationTimestamp = None, d_OwnerReferences = [owner],
         d_Spec = \<lparr>cds_ComponentVersionSpec = Some (v3_Spec cd),
                   cds_Version = ref_Version ref\<rparr>\<rparr>"
  let ?st0 = "record_call (Fetch (ref_ComponentName ref) (ref_Version ref)) st"
  obtain st2 r2 where cu: "CreateOrUpdate env ?d (\<lambda>d. Inr d) ?st0 = (st2, r2)"
    by (cases "CreateOrUpdate env ?d (\<lambda>d. Inr d) ?st0")
  from ge ce have errs: "GetErr env (d_Namespace ?d, d_Name ?d) = None"
    "CreateErr env (d_Namespace ?d, d_Name ?d) = None"
    by simp_all
  have wf0: "wf_cluster ?st0" by (rule wf_cluster_cong [OF _ _ wf]) simp_all
  from CreateOrUpdate_noop_succeeds [OF errs wf0 cu] have "\<not> isl r2" .
  with step cu show ?thesis
    by (cases r2) (auto simp add: parseReference_unfold [OF f c n o])
qed

lemma returning_run_accessible:
  assumes "parseReferences_loop env parent refs result st = Some y"
  shows "wf_cluster st \<longrightarrow> (\<forall>r \<in> below env parent refs. resolves env parent r) \<longrightarrow>
         \<not> isl (snd y) \<and> set refs \<subseteq> Wellfounded.acc (reference_graph env parent)"
  using assms
proof (induction rule: parseReferences_loop_induct)
  case (Nil result st)
  show ?case by simp
next
  case (Err ref rest result st st1 e)
  show ?case
  proof (intro impI)
    assume wf: "wf_cluster st" and res: "\<forall>r \<in> below env parent (ref # rest). resolves env parent r"
    from res have "resolves env parent ref" by (rule bspec) (rule below_head)
    from parseReference_resolves [OF this wf Err.hyps(1)]
    show "\<not> isl (snd (st1, Inl e :: error + Reference list)) \<and>
       set (ref # rest) \<subseteq> Wellfounded.acc (reference_graph env parent)" by simp
  qed
next
  case (Leaf ref rest result st st1 rcv reference y)
  show ?case
  proof (intro impI)
    assume wf: "wf_cluster st" and res: "\<forall>r \<in> below env parent (ref # rest). resolves env parent r"
    from wf grows_for_wf [OF parseReference_grows [OF Leaf.hyps(1)]] have wf1: "wf_cluster st1" by simp
    from res below_rest [of env parent rest ref]
    have res1: "\<forall>r \<in> below env parent rest. resolves env parent r"
      by (intro ballI) (erule bspec, erule subsetD)
    from Leaf.IH wf1 res1 have ih: "\<not> isl (snd y)"
      "set rest \<subseteq> Wellfounded.acc (reference_graph env parent)" by simp_all
    from parseReference_references_of [OF Leaf.hyps(1)] Leaf.hyps(2)
    have "references_of env parent ref = []" by simp
    have "ref \<in> Wellfounded.acc (reference_graph env parent)"
      by (rule accI) (simp add: reference_graph_def \<open>references_of env parent ref = []\<close>)
    with ih show "\<not> isl (snd y) \<and> set (ref # rest) \<subseteq> Wellfounded.acc (reference_graph env parent)"
      by simp
  qed
next
  case (NodeErr ref rest result st st1 rcv reference st2 e)
  show ?case
  proof (intro impI)
    assume wf: "wf_cluster st" and res: "\<forall>r \<in> below env parent (ref # rest). resolves env parent r"
    from wf grows_for_wf [OF parseReference_grows [OF NodeErr.hyps(1)]] have wf1: "wf_cluster st1" by simp
    note kids = parseReference_references_of [OF NodeErr.hyps(1)]
    from res below_children [of env parent ref rest]
    have "\<forall>r \<in> below env parent (cd_References rcv). resolves env parent r"
      unfolding kids by (intro ballI) (erule bspec, erule subsetD)
    with NodeErr.IH wf1 have "\<not> isl (snd (st2, Inl e :: error + Reference list))" by blast
    then show "\<not> isl (snd (st2, Inl e :: error + Reference list)) \<and>
       set (ref # rest) \<subseteq> Wellfounded.acc (reference_graph env parent)" by simp
  qed
next
  case (Node ref rest result st st1 rcv reference st2 out y)
  show ?case
  proof (intro impI)
    assume wf: "wf_cluster st" and res: "\<forall>r \<in> below env parent (ref # rest). resolves env parent r"
    from wf grows_for_wf [OF parseReference_grows [OF Node.hyps(1)]] have wf1: "wf_cluster st1" by simp
    with grows_for_wf [OF parseReferences_loop_grows [OF Node.hyps(3)]] have wf2: "wf_cluster st2" by simp
    note kids = parseReference_references_of [OF Node.hyps(1)]
    from res below_children [of env parent ref rest]
    have "\<forall>r \<in> below env parent (cd_References rcv). resolves env parent r"
      unfolding kids by (intro ballI) (erule bspec, erule subsetD)
    with Node.IH(1) wf1 have k: "set (cd_References rcv) \<subseteq> Wellfounded.acc (reference_graph env parent)"
      by blast
    have a: "ref \<in> Wellfounded.acc (reference_graph env parent)"
    proof (rule accI)
      fix c assume "(c, ref) \<in> reference_graph env parent"
      then have "c \<in> set (cd_References rcv)" by (simp add: reference_graph_def kids)
      with k show "c \<in> Wellfounded.acc (reference_graph env parent)" by blast
    qed
    from res below_rest [of env parent rest ref]
    have res1: "\<forall>r \<in> below env parent rest. resolves env parent r"
      by (intro ballI) (erule bspec, erule subsetD)
    from Node.IH(2) wf2 res1 have ih: "\<not> isl (snd y)"
      "set rest \<subseteq> Wellfounded.acc (reference_graph env parent)" by simp_all
    with a show "\<not> isl (snd y) \<and> set (ref # rest) \<subseteq> Wellfounded.acc (reference_graph env parent)"
      by simp
  qed
qed

lemma accessible_no_cycle:
  assumes "x \<in> Wellfounded.acc r"
  shows "(x, x) \<notin> r\<^sup>+"
proof (rule acc_induct [OF assms])
  fix x assume ih: "\<forall>y. (y, x) \<in> r \<longrightarrow> (y, y) \<notin> r\<^sup>+"
  show "(x, x) \<notin> r\<^sup>+"
  proof
    assume "(x, x) \<in> r\<^sup>+"
    from tranclD2 [OF this] obtain z where a: "(x, z) \<in> r\<^sup>*" and b: "(z, x) \<in> r"
      by (elim exE conjE)
    from b a have "(z, z) \<in> r\<^sup>+" by (rule rtrancl_into_trancl2)
    with ih b show False by simp
  qed
qed

lemma cycle_below_never_returns:
  assumes wf: "wf_cluster st"
    and res: "\<forall>r \<in> below env parent refs. resolves env parent r"
    and c: "c \<in> below env parent refs" and cyc: "(c, c) \<in> (reference_graph env parent)\<^sup>+"
  shows "parseReferences_loop env parent refs result st = None"
proof (cases "parseReferences_loop env parent refs result st")
  case None
  then show ?thesis .
next
  case (Some y)
  from returning_run_accessible [OF Some] wf res
  have sub: "set refs \<subseteq> Wellfounded.acc (reference_graph env parent)" by blast
  from c obtain r0 where r0: "r0 \<in> set refs" and p: "(c, r0) \<in> (reference_graph env parent)\<^sup>*"
    unfolding below_iff by (elim bexE)
  from sub r0 have "r0 \<in> Wellfounded.acc (reference_graph env parent)" by blast
  from acc_downwards [OF this p] have "c \<in> Wellfounded.acc (reference_graph env parent)" .
  from accessible_no_cycle [OF this] cyc show ?thesis by simp
qed

lemma acyclic_succeeds:
  assumes g: "wf (reference_graph env parent)" and wf: "wf_cluster st"
    and res: "\<forall>r \<in> below env parent refs. resolves env parent r"
  shows "\<exists>st' out. parseReferences env parent refs st = Some (st', Inr out) \<and>
           mirrors env parent refs out"
proof -
  from acyclic_returns [OF g, of refs st] obtain y where
    run: "parseReferences_loop env parent refs [] st = Some y"
    by (auto simp add: parseReferences_def)
  from returning_run_accessible [OF run] wf res have "\<not> isl (snd y)" by blast
  then obtain out where out: "snd y = Inr out" by (cases "snd y") simp_all
  from parseReferences_loop_mirrors [OF run] out have "mirrors env parent refs out" by simp
  moreover from run out have "parseReferences env parent refs st = Some (fst y, Inr out)"
    by (cases y) (simp add: parseReferences_def)
  ultimately show ?thesis by blast
qed

subsection \<open>The runs of the examples\<close>

lemmas test_data =
  mockFetcher_def test_cluster_def test_obj_def test_root_def test_embedded_def test_ref_def
  test_owner_def test_root_record_def test_embedded_record_def test_status_def test_result_def
  stale_embedded_record_def stale_cluster_def noexpand_obj_def noexpand_cluster_def
  mockFetcherWith_def test_cv_def

lemmas run_simps =
  Reconcile_def reconcile_def client_GetRoot_def record_call_def Let_def
  requeue_def GetRequeueAfter_def constructComponentName_key ReplaceAll_def
  CreateOrUpdate_def client_Get_def client_Create_def client_Update_def mutate_def
  rootMutateFn_def SetOwnerReference_def validateOwner_def
  parseReferences_def parseReferences_loop.simps parseReference_def NewHelper_def Patch_def

lemma test_run:
  "Reconcile (mockFetcher True None) (''default'', ''test-name'') test_cluster =
     Some (test_result, \<lparr>Requeue = False, RequeueAfter = 600000000000\<rparr>, None)"
  by (simp add: test_data run_simps)

lemma wf_stale_cluster: "wf_cluster stale_cluster"
  by (simp add: wf_cluster_def test_data)

lemma stale_run:
  "\<exists>st' obj' res.
     reconcile (mockFetcher True None) test_obj stale_cluster = Some (st', obj', res, None) \<and>
     componentDescriptors st' (''default'', ''github.com-skarlso-root-v0.0.1-14695981039346656037'') = Some test_root_record \<and>
     componentDescriptors st' (''default'', ''github.com-skarlso-embedded-v0.0.1-14695981039346656037'') =
       Some stale_embedded_record"
  by (simp add: test_data run_simps)

lemmas tree_data =
  reference_to_def component_of_def tree_refs_def tree_cv_def treeFetcher_def tree_out_def
  cycle_refs_def cycle_cv_def cycleFetcher_def

lemma below_invariant:
  assumes base: "\<And>r. r \<in> set refs \<Longrightarrow> P r"
    and step: "\<And>r c. P r \<Longrightarrow> c \<in> set (references_of env parent r) \<Longrightarrow> P c"
    and x: "x \<in> below env parent refs"
  shows "P x"
proof -
  from x obtain r0 where r0: "r0 \<in> set refs" and p: "(x, r0) \<in> (reference_graph env parent)\<^sup>*"
    unfolding below_iff by (elim bexE)
  from p show ?thesis
  proof (induction rule: converse_rtrancl_induct)
    case base
    from r0 show ?case by (rule assms(1))
  next
    case (step y z)
    from step.hyps(1) have "y \<in> set (references_of env parent z)" by (simp add: reference_graph_def)
    with step.IH show ?case by (rule assms(2))
  qed
qed

lemma mock_resolves:
  "cv (ref_ComponentName r) \<noteq> None \<Longrightarrow> resolves (mockFetcherWith cv None v e) parent r"
  by (auto simp add: resolves_def mockFetcherWith_def constructComponentName_key)

lemma mock_references_of:
  "references_of (mockFetcherWith cv None v e) parent r =
     (case cv (ref_ComponentName r) of None \<Rightarrow> [] | Some c \<Rightarrow> cd_References c)"
  by (simp add: references_of_def mockFetcherWith_def split: option.splits)

lemma tree_registered:
  assumes "x \<in> below treeFetcher test_obj tree_refs"
  shows "tree_cv (ref_ComponentName x) \<noteq> None"
  using _ _ assms
proof (rule below_invariant)
  fix r assume "r \<in> set tree_refs"
  then show "tree_cv (ref_ComponentName r) \<noteq> None"
    by (auto simp add: tree_refs_def tree_cv_def reference_to_def)
next
  fix r c assume "tree_cv (ref_ComponentName r) \<noteq> None"
    and "c \<in> set (references_of treeFetcher test_obj r)"
  then show "tree_cv (ref_ComponentName c) \<noteq> None"
    unfolding treeFetcher_def mock_references_of
    by (auto simp add: tree_cv_def tree_refs_def reference_to_def component_of_def
        split: if_splits)
qed

lemma tree_resolves: "below treeFetcher test_obj tree_refs \<subseteq> {r. resolves treeFetcher test_obj r}"
proof
  fix x assume "x \<in> below treeFetcher test_obj tree_refs"
  from tree_registered [OF this] have "resolves treeFetcher test_obj x"
    unfolding treeFetcher_def by (rule mock_resolves)
  then show "x \<in> {r. resolves treeFetcher test_obj r}" by simp
qed

lemma tree_wf: "wf (reference_graph treeFetcher test_obj)"
proof -
  have "reference_graph treeFetcher test_obj \<subseteq>
      measure (\<lambda>r. if ref_ComponentName r = ''github.com/skarlso/root'' then 2
                    else if ref_ComponentName r = ''github.com/skarlso/b'' then 1 else 0)"
    unfolding reference_graph_def treeFetcher_def mock_references_of
    by (auto simp add: tree_cv_def tree_refs_def reference_to_def component_of_def
        split: if_splits)
  then show ?thesis by (rule wf_subset [OF wf_measure])
qed

lemma tree_expansion:
  "\<exists>st'. parseReferences treeFetcher test_obj tree_refs test_cluster = Some (st', Inr tree_out)"
  by (simp add: test_data tree_data run_simps)

lemma tree_run:
  "\<exists>st1. Reconcile treeFetcher (''default'', ''test-name'') test_cluster =
      Some (st1, \<lparr>Requeue = False, RequeueAfter = 600000000000\<rparr>, None) \<and>
    componentVersions st1 (''default'', ''test-name'') =
      Some (test_obj\<lparr>status_ComponentDescriptor :=
              Reference ''github.com/skarlso/root'' ''v0.0.1'' tree_out Map.empty
                (''default'', ''github.com-skarlso-root-v0.0.1-14695981039346656037'')\<rparr>)"
  by (simp add: test_data tree_data run_simps)

lemma cycle_registered:
  assumes "x \<in> below cycleFetcher test_obj cycle_refs"
  shows "cycle_cv (ref_ComponentName x) \<noteq> None"
  using _ _ assms
proof (rule below_invariant)
  fix r assume "r \<in> set cycle_refs"
  then show "cycle_cv (ref_ComponentName r) \<noteq> None"
    by (auto simp add: cycle_refs_def cycle_cv_def reference_to_def)
next
  fix r c assume "cycle_cv (ref_ComponentName r) \<noteq> None"
    and "c \<in> set (references_of cycleFetcher test_obj r)"
  then show "cycle_cv (ref_ComponentName c) \<noteq> None"
    unfolding cycleFetcher_def mock_references_of
    by (auto simp add: cycle_cv_def cycle_refs_def reference_to_def component_of_def
        split: if_splits)
qed

lemma cycle_resolves:
  "below cycleFetcher test_obj cycle_refs \<subseteq> {r. resolves cycleFetcher test_obj r}"
proof
  fix x assume "x \<in> below cycleFetcher test_obj cycle_refs"
  from cycle_registered [OF this] have "resolves cycleFetcher test_obj x"
    unfolding cycleFetcher_def by (rule mock_resolves)
  then show "x \<in> {r. resolves cycleFetcher test_obj r}" by simp
qed

section \<open>Properties\<close>

subsection \<open>The root object is gone\<close>

text \<open>
  Claim C10. When the root object named in the request is not in the store (the first
  read answers not-found), \<^verbatim>\<open>Reconcile\<close> returns the empty result and no error. The
  only call it has made is that read: no fetch, no verification, no write, and the
  stored objects are as before.
\<close>

theorem Reconcile_root_not_found:
  assumes "GetRootErr env req = None" and "componentVersions st req = None"
  shows "Reconcile env req st =
           Some (st\<lparr>calls := calls st @ [GetRoot req]\<rparr>,
                 \<lparr>Requeue = False, RequeueAfter = 0\<rparr>, None)"
  using assms by (simp add: Reconcile_def client_GetRoot_def record_call_def)

theorem Reconcile_root_not_found_witness:
  "GetRootErr (mockFetcher True None) (''default'', ''other'') = None \<and>
   componentVersions test_cluster (''default'', ''other'') = None \<and>
   Reconcile (mockFetcher True None) (''default'', ''other'') test_cluster =
     Some (test_cluster\<lparr>calls := calls test_cluster @ [GetRoot (''default'', ''other'')]\<rparr>,
           \<lparr>Requeue = False, RequeueAfter = 0\<rparr>, None)"
proof -
  have g: "GetRootErr (mockFetcher True None) (''default'', ''other'') = None"
    by (simp add: mockFetcher_def mockFetcherWith_def)
  have n: "componentVersions test_cluster (''default'', ''other'') = None"
    by (simp add: test_cluster_def)
  from g n Reconcile_root_not_found [OF g n] show ?thesis by simp
qed

subsection \<open>Verification comes first\<close>

text \<open>
  Claim C1. When the verifier answers with an error or with \<open>ok = False\<close>,
  \<^verbatim>\<open>Reconcile\<close> returns an error and a result that asks for a retry after the
  interval of the root. The cluster is as before but for the two calls recorded, the
  read of the root and the verification: no component descriptor was created or
  updated.
\<close>

theorem Reconcile_verification_fail_closed:
  assumes "GetRootErr env req = None" and "componentVersions st req = Some component"
    and "VerifyComponent env component = (ok, err)" and "err \<noteq> None \<or> \<not> ok"
  shows "\<exists>e. Reconcile env req st =
           Some (st\<lparr>calls := calls st @ [GetRoot req, Verify req]\<rparr>,
                 \<lparr>Requeue = False, RequeueAfter = spec_Interval component\<rparr>, Some e)"
  using assms
  by (cases err)
     (auto simp add: Reconcile_def client_GetRoot_def record_call_def requeue_def
      GetRequeueAfter_def Let_def)

theorem Reconcile_verification_fail_closed_witness:
  "GetRootErr (mockFetcher False None) (''default'', ''test-name'') = None \<and>
   componentVersions test_cluster (''default'', ''test-name'') = Some test_obj \<and>
   VerifyComponent (mockFetcher False None) test_obj = (False, None) \<and>
   (\<exists>e. Reconcile (mockFetcher False None) (''default'', ''test-name'') test_cluster =
      Some (test_cluster\<lparr>calls := calls test_cluster @
                [GetRoot (''default'', ''test-name''), Verify (''default'', ''test-name'')]\<rparr>,
            \<lparr>Requeue = False, RequeueAfter = spec_Interval test_obj\<rparr>, Some e))"
proof -
  have g: "GetRootErr (mockFetcher False None) (''default'', ''test-name'') = None"
    by (simp add: mockFetcher_def mockFetcherWith_def)
  have c: "componentVersions test_cluster (''default'', ''test-name'') = Some test_obj"
    by (simp add: test_cluster_def)
  have v: "VerifyComponent (mockFetcher False None) test_obj = (False, None)"
    by (simp add: mockFetcher_def mockFetcherWith_def)
  have f: "None \<noteq> (None :: error option) \<or> \<not> False" by simp
  from g c v Reconcile_verification_fail_closed [OF g c v f] show ?thesis by blast
qed

text \<open>
  Claim C6 says that a mismatch (\<open>ok = False\<close>, no error) is recorded on the status of
  the root as a condition of its own. It is not: with the mock answering a mismatch and
  with the mock answering an error, the stored root objects are the same afterwards,
  and the root still is the object of before.
\<close>

theorem mismatch_not_on_status_counterexample:
  "\<exists>st1 r1 st2 r2.
     Reconcile (mockFetcher False None) (''default'', ''test-name'') test_cluster = Some (st1, r1) \<and>
     Reconcile (mockFetcher False (Some (Failure ''registry unreachable'')))
       (''default'', ''test-name'') test_cluster = Some (st2, r2) \<and>
     componentVersions st1 = componentVersions st2 \<and>
     componentVersions st1 (''default'', ''test-name'') = Some test_obj"
  by (simp add: Reconcile_def client_GetRoot_def record_call_def mockFetcher_def
      mockFetcherWith_def test_cluster_def Let_def)

text \<open>
  Claim C6, amended. Both failures of the verification leave the stored objects, and
  with them the status of the root, untouched, and no patch of the status is sent.
  They differ in the error \<^verbatim>\<open>Reconcile\<close> returns: an error of the verifier comes back
  wrapped in "failed to verify component", a mismatch as the error "attempted to verify
  component, but the digest didn't match", which wraps nothing.
\<close>

theorem verification_failures_differ_in_error_only:
  assumes "GetRootErr env req = None" and "componentVersions st req = Some component"
    and "VerifyComponent env component = (ok, err)" and "err \<noteq> None \<or> \<not> ok"
  shows "\<exists>st' res e. Reconcile env req st = Some (st', res, Some e) \<and>
           componentVersions st' = componentVersions st \<and>
           componentDescriptors st' = componentDescriptors st \<and>
           calls st' = calls st @ [GetRoot req, Verify req] \<and>
           (case err of
              Some x \<Rightarrow> e = Wrapf ''failed to verify component'' x
            | None \<Rightarrow>
               e = Errorf (''attempted to verify component, but the digest didn'' @
                           [CHR 0x27] @ ''t match'') \<and>
               (\<forall>x. e \<noteq> Wrapf ''failed to verify component'' x))"
  using assms
  by (cases err)
     (auto simp add: Reconcile_def client_GetRoot_def record_call_def requeue_def
      GetRequeueAfter_def Let_def)

theorem verification_failures_differ_in_error_only_witness:
  "GetRootErr (mockFetcher False (Some (Failure ''registry unreachable'')))
     (''default'', ''test-name'') = None \<and>
   componentVersions test_cluster (''default'', ''test-name'') = Some test_obj \<and>
   VerifyComponent (mockFetcher False (Some (Failure ''registry unreachable''))) test_obj =
     (False, Some (Failure ''registry unreachable'')) \<and>
   (\<exists>st' res. Reconcile (mockFetcher False (Some (Failure ''registry unreachable'')))
        (''default'', ''test-name'') test_cluster =
      Some (st', res, Some (Wrapf ''failed to verify component'' (Failure ''registry unreachable''))) \<and>
      componentVersions st' = componentVersions test_cluster)"
proof -
  let ?env = "mockFetcher False (Some (Failure ''registry unreachable''))"
  have g: "GetRootErr ?env (''default'', ''test-name'') = None"
    by (simp add: mockFetcher_def mockFetcherWith_def)
  have c: "componentVersions test_cluster (''default'', ''test-name'') = Some test_obj"
    by (simp add: test_cluster_def)
  have v: "VerifyComponent ?env test_obj = (False, Some (Failure ''registry unreachable''))"
    by (simp add: mockFetcher_def mockFetcherWith_def)
  have f: "Some (Failure ''registry unreachable'') \<noteq> None \<or> \<not> False" by simp
  from verification_failures_differ_in_error_only [OF g c v f]
  obtain st' res e where
    "Reconcile ?env (''default'', ''test-name'') test_cluster = Some (st', res, Some e)"
    "componentVersions st' = componentVersions test_cluster"
    "e = Wrapf ''failed to verify component'' (Failure ''registry unreachable'')"
    by auto
  with g c v show ?thesis by blast
qed

subsection \<open>The order of the references\<close>

text \<open>
  Claim C7. From a cluster as the API server keeps it, when the reference graph is
  well-founded and every reference that the expansion of a list can reach resolves,
  \<^verbatim>\<open>parseReferences\<close> returns a reference list and no error, and that list mirrors
  the list it was given: position by position the declared name, version and extra
  identity, and below each reference, again in the declared order, the references of
  the component it names. And when a reconciliation with expansion succeeds, the list
  on the stored status of the root mirrors the references of the fetched root
  component in this way. The expansion is sequential, so there is no completion order
  of the writes that could change this.
\<close>

theorem expansion_preserves_order:
  assumes "wf_cluster st"
  shows "(wf (reference_graph env parent) \<and> (\<forall>r \<in> below env parent refs. resolves env parent r) \<longrightarrow>
           (\<exists>st' out. parseReferences env parent refs st = Some (st', Inr out) \<and>
              mirrors env parent refs out \<and> map Name out = map ref_Name refs)) \<and>
         (componentVersions st req = Some component \<and> spec_References_Expand component \<and>
          Reconcile env req st = Some (st1, res, None) \<longrightarrow>
           (\<exists>cv root'.
              GetComponentVersion env component (spec_Component component) (spec_Version component) =
                Inr (Some cv) \<and>
              componentVersions st1 req = Some root' \<and>
              mirrors env component (cd_References cv)
                (References (status_ComponentDescriptor root'))))"
proof (intro conjI impI)
  assume a: "wf (reference_graph env parent) \<and> (\<forall>r \<in> below env parent refs. resolves env parent r)"
  then have g: "wf (reference_graph env parent)"
    and r: "\<forall>r \<in> below env parent refs. resolves env parent r" by simp_all
  from acyclic_succeeds [OF g assms r] obtain st' out where
    run: "parseReferences env parent refs st = Some (st', Inr out)"
    and m: "mirrors env parent refs out" by (elim exE conjE)
  from mirrors_names [OF m] have "map Name out = map ref_Name refs" by simp
  with run m show "\<exists>st' out. parseReferences env parent refs st = Some (st', Inr out) \<and>
              mirrors env parent refs out \<and> map Name out = map ref_Name refs"
    by (intro exI [of _ st'] exI [of _ out] conjI)
next
  assume b: "componentVersions st req = Some component \<and> spec_References_Expand component \<and>
          Reconcile env req st = Some (st1, res, None)"
  then have stored: "componentVersions st req = Some component"
    and expand: "spec_References_Expand component"
    and ok: "Reconcile env req st = Some (st1, res, None)" by simp_all
  let ?st0 = "record_call (Verify req) (record_call (GetRoot req) st)"
  from Reconcile_success [OF ok stored] obtain obj' where
    r: "reconcile env component ?st0 = Some (st1, obj', res, None)" by (elim exE)
  from reconcile_success [OF r] expand obtain cv cd componentName st2 op d1 st3 refs where
    f: "GetComponentVersion env component (spec_Component component) (spec_Version component) =
          Inr (Some cv)"
    and cu: "CreateOrUpdate env (rootDescriptor component componentName) (rootMutateFn env component cd)
       (record_call (Fetch (spec_Component component) (spec_Version component)) ?st0) = (st2, Inr (op, d1))"
    and p: "parseReferences env component (cd_References cv) st2 = Some (st3, Inr refs)"
    and o: "obj' = component\<lparr>status_ComponentDescriptor :=
                          Reference (v3_Name cd) (v3_Version cd) refs Map.empty
                            (d_Namespace d1, d_Name d1)\<rparr>"
    and pa: "Patch env component obj' st3 = (st1, None)"
    by auto
  from parseReferences_loop_mirrors [OF p [unfolded parseReferences_def]]
  have m: "mirrors env component (cd_References cv) refs" by simp
  from parseReferences_loop_grows [OF p [unfolded parseReferences_def]]
  have "componentVersions st3 = componentVersions st2" by (simp add: grows_for_def)
  with CreateOrUpdate_frame(1) [OF cu]
  have cvs: "componentVersions st3 = componentVersions st" by (simp add: record_call_def)
  from assms stored have key: "(cv_Namespace component, cv_Name component) = req"
    by (rule wf_cluster_root)
  then have key': "(cv_Namespace obj', cv_Name obj') = req" using o by simp
  from cvs stored key' have "componentVersions st3 (cv_Namespace obj', cv_Name obj') = Some component"
    by simp
  from Patch_status(1) [OF pa this] key' o
  have "componentVersions st1 req = Some obj'" by simp
  with f m o show "\<exists>cv root'.
              GetComponentVersion env component (spec_Component component) (spec_Version component) =
                Inr (Some cv) \<and>
              componentVersions st1 req = Some root' \<and>
              mirrors env component (cd_References cv)
                (References (status_ComponentDescriptor root'))"
    by (intro exI [of _ cv] exI [of _ obj'] conjI) simp_all
qed

theorem expansion_preserves_order_witness:
  "wf_cluster test_cluster \<and> wf (reference_graph treeFetcher test_obj) \<and>
   below treeFetcher test_obj tree_refs \<subseteq> {r. resolves treeFetcher test_obj r} \<and>
   (\<exists>st'. parseReferences treeFetcher test_obj tree_refs test_cluster = Some (st', Inr tree_out)) \<and>
   mirrors treeFetcher test_obj tree_refs tree_out \<and>
   map Name tree_out = [''a'', ''b'', ''c''] \<and>
   map (\<lambda>r. map Name (References r)) tree_out = [[], [''b1'', ''b2''], []] \<and>
   componentVersions test_cluster (''default'', ''test-name'') = Some test_obj \<and>
   spec_References_Expand test_obj \<and>
   GetComponentVersion treeFetcher test_obj (spec_Component test_obj) (spec_Version test_obj) =
     Inr (Some (component_of ''github.com/skarlso/root'' tree_refs)) \<and>
   (\<exists>st1 root'. Reconcile treeFetcher (''default'', ''test-name'') test_cluster =
        Some (st1, \<lparr>Requeue = False, RequeueAfter = 600000000000\<rparr>, None) \<and>
      componentVersions st1 (''default'', ''test-name'') = Some root' \<and>
      References (status_ComponentDescriptor root') = tree_out \<and>
      mirrors treeFetcher test_obj tree_refs (References (status_ComponentDescriptor root')))"
proof -
  have w: "wf_cluster test_cluster" by (simp add: wf_cluster_def test_data)
  have r: "\<forall>r \<in> below treeFetcher test_obj tree_refs. resolves treeFetcher test_obj r"
    using tree_resolves by blast
  have c: "componentVersions test_cluster (''default'', ''test-name'') = Some test_obj"
    by (simp add: test_data)
  have e: "spec_References_Expand test_obj" by (simp add: test_data)
  have f: "GetComponentVersion treeFetcher test_obj (spec_Component test_obj) (spec_Version test_obj) =
     Inr (Some (component_of ''github.com/skarlso/root'' tree_refs))"
    by (simp add: test_data tree_data)
  from tree_run obtain st1 where
    run: "Reconcile treeFetcher (''default'', ''test-name'') test_cluster =
      Some (st1, \<lparr>Requeue = False, RequeueAfter = 600000000000\<rparr>, None)"
    and root: "componentVersions st1 (''default'', ''test-name'') =
      Some (test_obj\<lparr>status_ComponentDescriptor :=
              Reference ''github.com/skarlso/root'' ''v0.0.1'' tree_out Map.empty
                (''default'', ''github.com-skarlso-root-v0.0.1-14695981039346656037'')\<rparr>)"
    by (elim exE conjE)
  note t = expansion_preserves_order [OF w, of treeFetcher test_obj tree_refs
      "(''default'', ''test-name'')" test_obj st1 "\<lparr>Requeue = False, RequeueAfter = 600000000000\<rparr>"]
  from t [THEN conjunct1, THEN mp, OF conjI [OF tree_wf r]] obtain st' out where
    p: "parseReferences treeFetcher test_obj tree_refs test_cluster = Some (st', Inr out)"
    and m: "mirrors treeFetcher test_obj tree_refs out" by (elim exE conjE)
  from tree_expansion p have out: "out = tree_out" by auto
  from t [THEN conjunct2, THEN mp, OF conjI [OF c conjI [OF e run]]] obtain cv root' where
    f': "GetComponentVersion treeFetcher test_obj (spec_Component test_obj) (spec_Version test_obj) =
                Inr (Some cv)"
    and root': "componentVersions st1 (''default'', ''test-name'') = Some root'"
    and m': "mirrors treeFetcher test_obj (cd_References cv) (References (status_ComponentDescriptor root'))"
    by (elim exE conjE)
  from f f' have cv: "cd_References cv = tree_refs" by (simp add: component_of_def)
  from root root' have s: "References (status_ComponentDescriptor root') = tree_out" by auto
  have n: "map Name tree_out = [''a'', ''b'', ''c'']"
    "map (\<lambda>r. map Name (References r)) tree_out = [[], [''b1'', ''b2''], []]"
    by (simp_all add: tree_out_def)
  have p': "\<exists>st'. parseReferences treeFetcher test_obj tree_refs test_cluster = Some (st', Inr tree_out)"
    by (rule tree_expansion)
  have rs: "below treeFetcher test_obj tree_refs \<subseteq> {r. resolves treeFetcher test_obj r}"
    by (rule tree_resolves)
  have last: "\<exists>st1 root'. Reconcile treeFetcher (''default'', ''test-name'') test_cluster =
        Some (st1, \<lparr>Requeue = False, RequeueAfter = 600000000000\<rparr>, None) \<and>
      componentVersions st1 (''default'', ''test-name'') = Some root' \<and>
      References (status_ComponentDescriptor root') = tree_out \<and>
      mirrors treeFetcher test_obj tree_refs (References (status_ComponentDescriptor root'))"
    using run root' s m' [unfolded cv] by (intro exI [of _ st1] exI [of _ root'] conjI)
  from m out have mo: "mirrors treeFetcher test_obj tree_refs tree_out" by simp
  from w tree_wf rs p' mo n c e f last show ?thesis by (intro conjI)
qed

subsection \<open>Ownership\<close>

text \<open>
  Claim C8. Whatever \<^verbatim>\<open>reconcile\<close> returns for a root object, from a cluster as the
  API server keeps it: a descriptor that was stored before is still stored and has the
  owner references it had (an upsert never re-parents), and a descriptor that is new,
  the root's or one of any depth of the expansion, has exactly one owner reference, the
  one \<^verbatim>\<open>SetOwnerReference\<close> builds for the root object itself.
\<close>

theorem reconcile_flat_ownership:
  assumes "wf_cluster st" and "reconcile env root st = Some (st', obj', res, err)"
  shows "(\<forall>k d. componentDescriptors st k = Some d \<longrightarrow>
            (\<exists>d'. componentDescriptors st' k = Some d' \<and>
                  d_OwnerReferences d' = d_OwnerReferences d)) \<and>
         (\<forall>k d'. componentDescriptors st k = None \<longrightarrow> componentDescriptors st' k = Some d' \<longrightarrow>
            (\<exists>owner. rootOwnerReference env root = Some owner \<and> d_OwnerReferences d' = [owner]))"
proof -
  let ?st0 = "record_call (Fetch (spec_Component root) (spec_Version root)) st"
  have wf0: "wf_cluster ?st0"
    by (rule wf_cluster_cong [OF _ _ assms(1)]) simp_all
  have k0: "ownership_kept env root st ?st0" by (rule ownership_kept_same) simp
  have "ownership_kept env root ?st0 st'"
    using reconcile_stages [OF assms(2)]
  proof (elim disjE exE conjE)
    assume "st' = ?st0"
    then show ?thesis by (simp add: ownership_kept_same)
  next
    fix cv cd componentName st2 r
    assume cu: "CreateOrUpdate env (rootDescriptor root componentName) (rootMutateFn env root cd) ?st0 = (st2, r)"
      and "st' = st2"
    with root_step(1) [OF wf0 cu] show ?thesis by simp
  next
    fix cv cd componentName st2 r st3 r3
    assume cu: "CreateOrUpdate env (rootDescriptor root componentName) (rootMutateFn env root cd) ?st0 = (st2, r)"
      and p: "parseReferences env root (cd_References cv) st2 = Some (st3, r3)"
      and "st' = st3"
    from parseReferences_loop_grows [OF p [unfolded parseReferences_def]]
    have "ownership_kept env root st2 st3" by (simp add: grows_for_ownership_kept)
    with root_step(1) [OF wf0 cu] \<open>st' = st3\<close> show ?thesis
      by (auto intro: ownership_kept_trans)
  next
    fix cv cd componentName st2 r st3 r3 after e
    assume cu: "CreateOrUpdate env (rootDescriptor root componentName) (rootMutateFn env root cd) ?st0 = (st2, r)"
      and p: "parseReferences env root (cd_References cv) st2 = Some (st3, r3)"
      and pa: "Patch env root after st3 = (st', e)"
    from parseReferences_loop_grows [OF p [unfolded parseReferences_def]]
    have "ownership_kept env root st2 st3" by (simp add: grows_for_ownership_kept)
    with root_step(1) [OF wf0 cu] have "ownership_kept env root ?st0 st3"
      by (auto intro: ownership_kept_trans)
    moreover from Patch_frame [OF pa] have "ownership_kept env root st3 st'"
      by (rule ownership_kept_same)
    ultimately show ?thesis by (rule ownership_kept_trans)
  qed
  with k0 have "ownership_kept env root st st'" by (rule ownership_kept_trans)
  then show ?thesis unfolding ownership_kept_def .
qed

theorem reconcile_flat_ownership_witness:
  "wf_cluster stale_cluster \<and>
   (\<exists>st' obj' res err.
      reconcile (mockFetcher True None) test_obj stale_cluster = Some (st', obj', res, err) \<and>
      componentDescriptors stale_cluster (''default'', ''github.com-skarlso-embedded-v0.0.1-14695981039346656037'') =
        Some stale_embedded_record \<and>
      (\<exists>d'. componentDescriptors st' (''default'', ''github.com-skarlso-embedded-v0.0.1-14695981039346656037'') = Some d' \<and>
            d_OwnerReferences d' = d_OwnerReferences stale_embedded_record) \<and>
      componentDescriptors stale_cluster (''default'', ''github.com-skarlso-root-v0.0.1-14695981039346656037'') = None \<and>
      componentDescriptors st' (''default'', ''github.com-skarlso-root-v0.0.1-14695981039346656037'') = Some test_root_record \<and>
      rootOwnerReference (mockFetcher True None) test_obj = Some test_owner \<and>
      d_OwnerReferences test_root_record = [test_owner])"
proof -
  from stale_run obtain st' obj' res where
    r: "reconcile (mockFetcher True None) test_obj stale_cluster = Some (st', obj', res, None)"
    and root: "componentDescriptors st' (''default'', ''github.com-skarlso-root-v0.0.1-14695981039346656037'') =
      Some test_root_record" by (elim exE conjE)
  have e: "componentDescriptors stale_cluster (''default'', ''github.com-skarlso-embedded-v0.0.1-14695981039346656037'') =
        Some stale_embedded_record" by (simp add: test_data)
  have n: "componentDescriptors stale_cluster (''default'', ''github.com-skarlso-root-v0.0.1-14695981039346656037'') = None"
    by (simp add: test_data)
  note fo = reconcile_flat_ownership [OF wf_stale_cluster r]
  from fo e have old: "\<exists>d'. componentDescriptors st' (''default'', ''github.com-skarlso-embedded-v0.0.1-14695981039346656037'') = Some d' \<and>
            d_OwnerReferences d' = d_OwnerReferences stale_embedded_record"
    by (elim conjE allE [of _ "(''default'', ''github.com-skarlso-embedded-v0.0.1-14695981039346656037'')"]
        allE [of _ stale_embedded_record]) simp
  from fo n root obtain owner where "rootOwnerReference (mockFetcher True None) test_obj = Some owner"
    "d_OwnerReferences test_root_record = [owner]"
    by (elim conjE allE [of _ "(''default'', ''github.com-skarlso-root-v0.0.1-14695981039346656037'')"]
        allE [of _ test_root_record]) auto
  moreover have "d_OwnerReferences test_root_record = [test_owner]" by (simp add: test_data)
  ultimately have o: "rootOwnerReference (mockFetcher True None) test_obj = Some test_owner"
    "d_OwnerReferences test_root_record = [test_owner]" by simp_all
  from wf_stale_cluster r e old n root o show ?thesis by (intro conjI exI [of _ st'] exI [of _ obj'] exI [of _ res] exI [of _ None])
qed

subsection \<open>What an upsert refreshes\<close>

text \<open>
  Claim C4 says that a record that exists is refreshed from the newly fetched
  descriptor, for the root and for every child. For a child it is not: the embedded
  component is stored with an older payload, the reconciliation succeeds, the
  descriptor fetched and converted for it carries the payload \<open>''embedded''\<close>, and the
  stored record still is the old one.
\<close>

theorem children_not_refreshed_counterexample:
  "\<exists>st' obj' res.
     reconcile (mockFetcher True None) test_obj stale_cluster = Some (st', obj', res, None) \<and>
     GetComponentVersion (mockFetcher True None) test_obj ''github.com/skarlso/embedded'' ''v0.0.1'' =
       Inr (Some test_embedded) \<and>
     ConvertFrom (mockFetcher True None) test_embedded =
       Inr \<lparr>v3_Name = ''github.com/skarlso/embedded'', v3_Version = ''v0.0.1'', v3_Spec = ''embedded''\<rparr> \<and>
     componentDescriptors st' (''default'', ''github.com-skarlso-embedded-v0.0.1-14695981039346656037'') =
       Some stale_embedded_record \<and>
     cds_ComponentVersionSpec (d_Spec stale_embedded_record) = Some ''embedded, as it was''"
proof -
  from stale_run obtain st' obj' res where
    r: "reconcile (mockFetcher True None) test_obj stale_cluster = Some (st', obj', res, None)"
    and e: "componentDescriptors st' (''default'', ''github.com-skarlso-embedded-v0.0.1-14695981039346656037'') =
       Some stale_embedded_record" by (elim exE conjE)
  have f: "GetComponentVersion (mockFetcher True None) test_obj ''github.com/skarlso/embedded'' ''v0.0.1'' =
       Inr (Some test_embedded)" by (simp add: test_data)
  have c: "ConvertFrom (mockFetcher True None) test_embedded =
       Inr \<lparr>v3_Name = ''github.com/skarlso/embedded'', v3_Version = ''v0.0.1'', v3_Spec = ''embedded''\<rparr>"
    by (simp add: test_data)
  have p: "cds_ComponentVersionSpec (d_Spec stale_embedded_record) = Some ''embedded, as it was''"
    by (simp add: test_data)
  from r f c e p show ?thesis by (intro exI [of _ st'] exI [of _ obj'] exI [of _ res] conjI)
qed

text \<open>
  Claim C4, amended. After a reconciliation that succeeds, the record under the key of
  the root carries the payload and version of the newly fetched and converted root
  descriptor; if a record was there before, it is that record with the spec replaced,
  so nothing is duplicated. Every other record that was stored, the record of a child
  included, is left exactly as it was: \<^verbatim>\<open>parseReferences\<close> hands
  \<^verbatim>\<open>CreateOrUpdate\<close> a mutate function that does nothing ("we don't need to update
  it").
\<close>

theorem reconcile_refreshes_root_only:
  assumes "wf_cluster st" and "reconcile env obj st = Some (st', obj', res, None)"
  shows "\<exists>cv cd componentName d1.
     GetComponentVersion env obj (spec_Component obj) (spec_Version obj) = Inr (Some cv) \<and>
     ConvertFrom env cv = Inr cd \<and>
     constructComponentName env (v3_Name cd) (v3_Version cd) Map.empty = Inr componentName \<and>
     componentDescriptors st' (cv_Namespace obj, componentName) = Some d1 \<and>
     d_Spec d1 = \<lparr>cds_ComponentVersionSpec = Some (v3_Spec cd), cds_Version = v3_Version cd\<rparr> \<and>
     (\<forall>d0. componentDescriptors st (cv_Namespace obj, componentName) = Some d0 \<longrightarrow>
        d1 = d0\<lparr>d_Spec := d_Spec d1\<rparr>) \<and>
     (\<forall>k d0. k \<noteq> (cv_Namespace obj, componentName) \<longrightarrow>
        componentDescriptors st k = Some d0 \<longrightarrow> componentDescriptors st' k = Some d0)"
proof -
  let ?st0 = "record_call (Fetch (spec_Component obj) (spec_Version obj)) st"
  from reconcile_success_state [OF assms(2)] obtain cv cd componentName st2 op d1 where
    f: "GetComponentVersion env obj (spec_Component obj) (spec_Version obj) = Inr (Some cv)"
    and c: "ConvertFrom env cv = Inr cd"
    and n: "constructComponentName env (v3_Name cd) (v3_Version cd) Map.empty = Inr componentName"
    and cu: "CreateOrUpdate env (rootDescriptor obj componentName) (rootMutateFn env obj cd) ?st0 =
       (st2, Inr (op, d1))"
    and keep0: "\<forall>k d. componentDescriptors st2 k = Some d \<longrightarrow> componentDescriptors st' k = Some d"
    by (elim exE conjE) (rule that)
  have keep: "componentDescriptors st' k = Some d"
    if "componentDescriptors st2 k = Some d" for k d using keep0 that by blast
  let ?key = "(cv_Namespace obj, componentName)"
  let ?spec = "\<lparr>cds_ComponentVersionSpec = Some (v3_Spec cd), cds_Version = v3_Version cd\<rparr>"
  have root: "componentDescriptors st' ?key = Some d1"
    by (rule keep [OF CreateOrUpdate_root_result(1) [OF cu]])
  have spec: "d_Spec d1 = ?spec" by (rule CreateOrUpdate_root_result(2) [OF cu])
  have inplace: "d1 = d0\<lparr>d_Spec := d_Spec d1\<rparr>"
    if s: "componentDescriptors st ?key = Some d0" for d0
  proof -
    from wf_cluster_descriptor [OF assms(1) s]
    have k: "(d_Namespace d0, d_Name d0) = ?key" and t: "d_CreationTimestamp d0 \<noteq> None" by simp_all
    have m: "rootMutateFn env obj cd d0 = Inr (d0\<lparr>d_Spec := ?spec\<rparr>)"
      by (rule rootMutateFn_existing [OF t])
    have s': "componentDescriptors ?st0
        (d_Namespace (rootDescriptor obj componentName), d_Name (rootDescriptor obj componentName)) = Some d0"
      using s by simp
    have k': "(d_Namespace (d0\<lparr>d_Spec := ?spec\<rparr>), d_Name (d0\<lparr>d_Spec := ?spec\<rparr>)) =
        (d_Namespace (rootDescriptor obj componentName), d_Name (rootDescriptor obj componentName))"
      using k by simp
    from CreateOrUpdate_found(2) [OF s' m k' cu refl] spec show ?thesis by simp
  qed
  have others: "componentDescriptors st' k = Some d0"
    if "k \<noteq> ?key" and "componentDescriptors st k = Some d0" for k d0
  proof -
    from CreateOrUpdate_frame(2) [OF cu, of k] that have "componentDescriptors st2 k = Some d0" by simp
    then show ?thesis by (rule keep)
  qed
  from inplace have i: "\<forall>d0. componentDescriptors st ?key = Some d0 \<longrightarrow>
        d1 = d0\<lparr>d_Spec := d_Spec d1\<rparr>" by (intro allI impI)
  from others have o: "\<forall>k d0. k \<noteq> ?key \<longrightarrow>
        componentDescriptors st k = Some d0 \<longrightarrow> componentDescriptors st' k = Some d0"
    by (intro allI impI)
  from f c n root spec i o show ?thesis
    by (intro exI [of _ cv] exI [of _ cd] exI [of _ componentName] exI [of _ d1] conjI)
qed

theorem reconcile_refreshes_root_only_witness:
  "wf_cluster test_result \<and>
   (\<exists>st' obj' res.
      reconcile ((mockFetcher True None)\<lparr>ConvertFrom := (\<lambda>d. Inr \<lparr>v3_Name = cd_Name d,
          v3_Version = cd_Version d, v3_Spec = ''new''\<rparr>)\<rparr>) test_obj test_result =
        Some (st', obj', res, None) \<and>
      componentDescriptors st' (''default'', ''github.com-skarlso-root-v0.0.1-14695981039346656037'') =
        Some (test_root_record\<lparr>d_Spec := \<lparr>cds_ComponentVersionSpec = Some ''new'',
                 cds_Version = ''v0.0.1''\<rparr>\<rparr>) \<and>
      componentDescriptors st' (''default'', ''github.com-skarlso-embedded-v0.0.1-14695981039346656037'') =
        Some test_embedded_record)"
proof -
  let ?env = "(mockFetcher True None)\<lparr>ConvertFrom := (\<lambda>d. Inr \<lparr>v3_Name = cd_Name d,
          v3_Version = cd_Version d, v3_Spec = ''new''\<rparr>)\<rparr>"
  have w: "wf_cluster test_result" by (simp add: wf_cluster_def test_data)
  have "\<exists>st' obj' res. reconcile ?env test_obj test_result = Some (st', obj', res, None)"
    by (simp add: test_data run_simps)
  then obtain st' obj' res where r: "reconcile ?env test_obj test_result = Some (st', obj', res, None)"
    by (elim exE)
  from reconcile_refreshes_root_only [OF w r] obtain cv cd componentName d1 where
    f: "GetComponentVersion ?env test_obj (spec_Component test_obj) (spec_Version test_obj) = Inr (Some cv)"
    and c: "ConvertFrom ?env cv = Inr cd"
    and n: "constructComponentName ?env (v3_Name cd) (v3_Version cd) Map.empty = Inr componentName"
    and root: "componentDescriptors st' (cv_Namespace test_obj, componentName) = Some d1"
    and spec: "d_Spec d1 = \<lparr>cds_ComponentVersionSpec = Some (v3_Spec cd), cds_Version = v3_Version cd\<rparr>"
    and inplace: "\<forall>d0. componentDescriptors test_result (cv_Namespace test_obj, componentName) = Some d0 \<longrightarrow>
        d1 = d0\<lparr>d_Spec := d_Spec d1\<rparr>"
    and others: "\<forall>k d0. k \<noteq> (cv_Namespace test_obj, componentName) \<longrightarrow>
        componentDescriptors test_result k = Some d0 \<longrightarrow> componentDescriptors st' k = Some d0"
    by (elim exE conjE)
  from f have cv: "cv = test_root" by (simp add: test_data)
  from c cv have cd: "cd = \<lparr>v3_Name = ''github.com/skarlso/root'', v3_Version = ''v0.0.1'', v3_Spec = ''new''\<rparr>"
    by (simp add: test_data)
  from n cd have cn: "componentName = ''github.com-skarlso-root-v0.0.1-14695981039346656037''"
    by (simp add: test_data run_simps)
  have ns: "cv_Namespace test_obj = ''default''" by (simp add: test_data)
  have "componentDescriptors test_result (''default'', ''github.com-skarlso-root-v0.0.1-14695981039346656037'') =
      Some test_root_record" by (simp add: test_data)
  with inplace cn ns have "d1 = test_root_record\<lparr>d_Spec := d_Spec d1\<rparr>" by simp
  with spec cd have d1: "d1 = test_root_record\<lparr>d_Spec := \<lparr>cds_ComponentVersionSpec = Some ''new'',
                 cds_Version = ''v0.0.1''\<rparr>\<rparr>" by simp
  have "componentDescriptors test_result (''default'', ''github.com-skarlso-embedded-v0.0.1-14695981039346656037'') =
      Some test_embedded_record" by (simp add: test_data)
  with others cn ns have emb: "componentDescriptors st' (''default'', ''github.com-skarlso-embedded-v0.0.1-14695981039346656037'') =
        Some test_embedded_record" by simp
  from root cn ns d1 have rt: "componentDescriptors st' (''default'', ''github.com-skarlso-root-v0.0.1-14695981039346656037'') =
        Some (test_root_record\<lparr>d_Spec := \<lparr>cds_ComponentVersionSpec = Some ''new'',
                 cds_Version = ''v0.0.1''\<rparr>\<rparr>)" by simp
  from w r rt emb show ?thesis by (intro conjI exI [of _ st'] exI [of _ obj'] exI [of _ res])
qed

subsection \<open>Without expansion\<close>

text \<open>
  Claim C5 says that with the expand flag off the status of the root is committed
  before \<^verbatim>\<open>reconcile\<close> completes. It is not: the run of the test with the flag off
  succeeds and persists the descriptor of the root, its last call is the creation of
  that descriptor, and the stored root object still has the empty status it had.
\<close>

theorem status_not_committed_counterexample:
  "\<exists>st' res.
     Reconcile (mockFetcher True None) (''default'', ''test-name'') noexpand_cluster =
       Some (st', res, None) \<and>
     componentDescriptors st' (''default'', ''github.com-skarlso-root-v0.0.1-14695981039346656037'') = Some test_root_record \<and>
     componentVersions st' (''default'', ''test-name'') = Some noexpand_obj \<and>
     status_ComponentDescriptor noexpand_obj = Reference [] [] [] Map.empty ([], []) \<and>
     calls st' =
       [GetRoot (''default'', ''test-name''), Verify (''default'', ''test-name''),
        Fetch ''github.com/skarlso/root'' ''v0.0.1'',
        Get (''default'', ''github.com-skarlso-root-v0.0.1-14695981039346656037''),
        Create (''default'', ''github.com-skarlso-root-v0.0.1-14695981039346656037'')]"
  by (simp add: test_data run_simps)

text \<open>
  Claim C5, amended. With the expand flag off, \<^verbatim>\<open>reconcile\<close> always returns. It
  leaves the stored root objects and the object it was given as they are and sends no
  patch of the status: the status is not committed. The only descriptor it may have
  written is the one under the key of the root, so no child record is created. When it
  returns no error, the result asks for the next run after the interval, and the record
  of the root is stored with the payload and version of the converted descriptor.
\<close>

theorem reconcile_without_expansion:
  assumes "\<not> spec_References_Expand obj"
  shows "\<exists>st' res err.
     reconcile env obj st = Some (st', obj, res, err) \<and>
     componentVersions st' = componentVersions st \<and>
     (\<exists>cs. calls st' = calls st @ cs \<and> (\<forall>k. PatchStatus k \<notin> set cs)) \<and>
     (\<forall>k. componentDescriptors st' k \<noteq> componentDescriptors st k \<longrightarrow>
        (\<exists>cv cd componentName.
           GetComponentVersion env obj (spec_Component obj) (spec_Version obj) = Inr (Some cv) \<and>
           ConvertFrom env cv = Inr cd \<and>
           constructComponentName env (v3_Name cd) (v3_Version cd) Map.empty = Inr componentName \<and>
           k = (cv_Namespace obj, componentName))) \<and>
     (err = None \<longrightarrow>
        res = \<lparr>Requeue = False, RequeueAfter = spec_Interval obj\<rparr> \<and>
        (\<exists>cv cd componentName d1.
           GetComponentVersion env obj (spec_Component obj) (spec_Version obj) = Inr (Some cv) \<and>
           ConvertFrom env cv = Inr cd \<and>
           constructComponentName env (v3_Name cd) (v3_Version cd) Map.empty = Inr componentName \<and>
           componentDescriptors st' (cv_Namespace obj, componentName) = Some d1 \<and>
           d_Spec d1 = \<lparr>cds_ComponentVersionSpec = Some (v3_Spec cd), cds_Version = v3_Version cd\<rparr>))"
proof (cases "\<exists>cv cd componentName.
      GetComponentVersion env obj (spec_Component obj) (spec_Version obj) = Inr (Some cv) \<and>
      ConvertFrom env cv = Inr cd \<and>
      constructComponentName env (v3_Name cd) (v3_Version cd) Map.empty = Inr componentName")
  case False
  from reconcile_early [OF False, of st] obtain res e where
    r: "reconcile env obj st =
     Some (record_call (Fetch (spec_Component obj) (spec_Version obj)) st, obj, res, Some e)"
    by (elim exE)
  show ?thesis
    by (intro exI [of _ "record_call (Fetch (spec_Component obj) (spec_Version obj)) st"]
        exI [of _ res] exI [of _ "Some e"] conjI)
      (simp_all add: r)
next
  case True
  then obtain cv cd componentName where
    f: "GetComponentVersion env obj (spec_Component obj) (spec_Version obj) = Inr (Some cv)"
    and c: "ConvertFrom env cv = Inr cd"
    and n: "constructComponentName env (v3_Name cd) (v3_Version cd) Map.empty = Inr componentName"
    by (elim exE conjE)
  let ?st0 = "record_call (Fetch (spec_Component obj) (spec_Version obj)) st"
  obtain st2 r where cu: "CreateOrUpdate env (rootDescriptor obj componentName)
       (rootMutateFn env obj cd) ?st0 = (st2, r)"
    by (cases "CreateOrUpdate env (rootDescriptor obj componentName) (rootMutateFn env obj cd) ?st0")
  let ?err = "case r of Inl e \<Rightarrow> Some (Wrapf ''failed to create or update component descriptor'' e)
        | Inr x \<Rightarrow> None"
  note run = reconcile_noexpand [OF assms f c n cu]
  have cvs: "componentVersions st2 = componentVersions st"
    using CreateOrUpdate_frame(1) [OF cu] by simp
  from CreateOrUpdate_calls [OF cu] obtain cs where
    cs: "calls st2 = calls ?st0 @ cs" "\<forall>k. PatchStatus k \<notin> set cs" by (elim exE conjE)
  have calls: "\<exists>cs. calls st2 = calls st @ cs \<and> (\<forall>k. PatchStatus k \<notin> set cs)"
    using cs
    by (intro exI [of _ "Fetch (spec_Component obj) (spec_Version obj) # cs"]) simp
  have changed: "\<forall>k. componentDescriptors st2 k \<noteq> componentDescriptors st k \<longrightarrow>
        (\<exists>cv cd componentName.
           GetComponentVersion env obj (spec_Component obj) (spec_Version obj) = Inr (Some cv) \<and>
           ConvertFrom env cv = Inr cd \<and>
           constructComponentName env (v3_Name cd) (v3_Version cd) Map.empty = Inr componentName \<and>
           k = (cv_Namespace obj, componentName))"
  proof (intro allI impI)
    fix k assume d: "componentDescriptors st2 k \<noteq> componentDescriptors st k"
    have "k = (cv_Namespace obj, componentName)"
    proof (rule ccontr)
      assume "k \<noteq> (cv_Namespace obj, componentName)"
      with CreateOrUpdate_frame(2) [OF cu, of k] d show False by simp
    qed
    with f c n show "\<exists>cv cd componentName.
           GetComponentVersion env obj (spec_Component obj) (spec_Version obj) = Inr (Some cv) \<and>
           ConvertFrom env cv = Inr cd \<and>
           constructComponentName env (v3_Name cd) (v3_Version cd) Map.empty = Inr componentName \<and>
           k = (cv_Namespace obj, componentName)"
      by (intro exI [of _ cv] exI [of _ cd] exI [of _ componentName] conjI)
  qed
  have ok: "?err = None \<longrightarrow>
        requeue obj = \<lparr>Requeue = False, RequeueAfter = spec_Interval obj\<rparr> \<and>
        (\<exists>cv cd componentName d1.
           GetComponentVersion env obj (spec_Component obj) (spec_Version obj) = Inr (Some cv) \<and>
           ConvertFrom env cv = Inr cd \<and>
           constructComponentName env (v3_Name cd) (v3_Version cd) Map.empty = Inr componentName \<and>
           componentDescriptors st2 (cv_Namespace obj, componentName) = Some d1 \<and>
           d_Spec d1 = \<lparr>cds_ComponentVersionSpec = Some (v3_Spec cd), cds_Version = v3_Version cd\<rparr>)"
  proof (intro impI conjI)
    show "requeue obj = \<lparr>Requeue = False, RequeueAfter = spec_Interval obj\<rparr>"
      by (simp add: requeue_def GetRequeueAfter_def)
  next
    assume "?err = None"
    then obtain op d1 where "r = Inr (op, d1)" by (cases r) auto
    with cu have cu': "CreateOrUpdate env (rootDescriptor obj componentName)
       (rootMutateFn env obj cd) ?st0 = (st2, Inr (op, d1))" by simp
    from f c n CreateOrUpdate_root_result(1) [OF cu'] CreateOrUpdate_root_result(2) [OF cu']
    show "\<exists>cv cd componentName d1.
           GetComponentVersion env obj (spec_Component obj) (spec_Version obj) = Inr (Some cv) \<and>
           ConvertFrom env cv = Inr cd \<and>
           constructComponentName env (v3_Name cd) (v3_Version cd) Map.empty = Inr componentName \<and>
           componentDescriptors st2 (cv_Namespace obj, componentName) = Some d1 \<and>
           d_Spec d1 = \<lparr>cds_ComponentVersionSpec = Some (v3_Spec cd), cds_Version = v3_Version cd\<rparr>"
      by (intro exI [of _ cv] exI [of _ cd] exI [of _ componentName] exI [of _ d1] conjI)
  qed
  from run cvs calls changed ok show ?thesis
    by (intro exI [of _ st2] exI [of _ "requeue obj"] exI [of _ ?err] conjI)
qed

theorem reconcile_without_expansion_witness:
  "\<not> spec_References_Expand noexpand_obj \<and>
   (\<exists>st' res.
      reconcile (mockFetcher True None) noexpand_obj noexpand_cluster =
        Some (st', noexpand_obj, res, None) \<and>
      componentVersions st' = componentVersions noexpand_cluster \<and>
      res = \<lparr>Requeue = False, RequeueAfter = spec_Interval noexpand_obj\<rparr>)"
proof -
  have e: "\<not> spec_References_Expand noexpand_obj" by (simp add: test_data)
  from reconcile_without_expansion [OF e, of "mockFetcher True None" noexpand_cluster]
  obtain st' res err where
    r: "reconcile (mockFetcher True None) noexpand_obj noexpand_cluster = Some (st', noexpand_obj, res, err)"
    and cvs: "componentVersions st' = componentVersions noexpand_cluster"
    and ok: "err = None \<longrightarrow> res = \<lparr>Requeue = False, RequeueAfter = spec_Interval noexpand_obj\<rparr> \<and>
        (\<exists>cv cd componentName d1.
           GetComponentVersion (mockFetcher True None) noexpand_obj (spec_Component noexpand_obj)
             (spec_Version noexpand_obj) = Inr (Some cv) \<and>
           ConvertFrom (mockFetcher True None) cv = Inr cd \<and>
           constructComponentName (mockFetcher True None) (v3_Name cd) (v3_Version cd) Map.empty =
             Inr componentName \<and>
           componentDescriptors st' (cv_Namespace noexpand_obj, componentName) = Some d1 \<and>
           d_Spec d1 = \<lparr>cds_ComponentVersionSpec = Some (v3_Spec cd), cds_Version = v3_Version cd\<rparr>)"
    by (elim exE conjE)
  have "\<exists>st' obj' res. reconcile (mockFetcher True None) noexpand_obj noexpand_cluster =
      Some (st', obj', res, None)"
    by (simp add: test_data run_simps)
  with r have err: "err = None" by auto
  with ok have res: "res = \<lparr>Requeue = False, RequeueAfter = spec_Interval noexpand_obj\<rparr>" by simp
  from e r [unfolded err] cvs res show ?thesis by (intro conjI exI [of _ st'] exI [of _ res])
qed

subsection \<open>The key of a record\<close>

text \<open>
  Claim C2 says that two inputs of \<^verbatim>\<open>constructComponentName\<close> with the same name and
  version and different extra identities get different keys. The code hashes a struct
  whose three fields are not exported, and \<^verbatim>\<open>hashstructure\<close> passes over such
  fields: the hash is that of the empty type name, the same for every input. For the
  embedded component of the test, the key without an extra identity and the key with
  the extra identity \<open>architecture = amd64\<close> are the same string.
\<close>

theorem constructComponentName_ignores_identity:
  "constructComponentName (mockFetcher True None) ''github.com/skarlso/embedded'' ''v0.0.1''
     Map.empty = Inr ''github.com-skarlso-embedded-v0.0.1-14695981039346656037'' \<and>
   constructComponentName (mockFetcher True None) ''github.com/skarlso/embedded'' ''v0.0.1''
     [''architecture'' \<mapsto> ''amd64''] =
     Inr ''github.com-skarlso-embedded-v0.0.1-14695981039346656037'' \<and>
   (Map.empty :: Identity) \<noteq> [''architecture'' \<mapsto> ''amd64''] \<and>
   Hash \<lparr>ns_componentName = ''github.com/skarlso/embedded'', ns_version = ''v0.0.1'',
         ns_identity = [''architecture'' \<mapsto> ''amd64'']\<rparr> = Inr 14695981039346656037"
proof -
  have "(Map.empty :: Identity) \<noteq> [''architecture'' \<mapsto> ''amd64'']"
    using map_upd_nonempty [of Map.empty "''architecture''" "''amd64''"] by (simp add: eq_commute)
  then show ?thesis
    by (simp add: constructComponentName_key ReplaceAll_def Hash_offset)
qed

subsection \<open>Termination of the expansion\<close>

text \<open>
  Claim C9. \<^verbatim>\<open>parseReferences\<close> has no bound on its depth and does not look for
  cycles. When the reference graph that the fetcher presents is well-founded (a finite
  acyclic graph is), \<^verbatim>\<open>parseReferences\<close> returns, from every cluster and for every
  list of references. When the cluster is as the API server keeps it and every
  reference that the expansion of the list can reach resolves, a cycle of the graph
  anywhere below the list, at any depth, makes it recurse without end: it does not
  return.
\<close>

theorem parseReferences_returns_iff_no_cycle:
  "(wf (reference_graph env parent) \<longrightarrow> (\<exists>y. parseReferences env parent refs st = Some y)) \<and>
   (wf_cluster st \<and> (\<forall>r \<in> below env parent refs. resolves env parent r) \<and>
    c \<in> below env parent refs \<and> (c, c) \<in> (reference_graph env parent)\<^sup>+ \<longrightarrow>
      parseReferences env parent refs st = None)"
proof (intro conjI impI)
  assume "wf (reference_graph env parent)"
  then show "\<exists>y. parseReferences env parent refs st = Some y" by (rule acyclic_returns)
next
  assume a: "wf_cluster st \<and> (\<forall>r \<in> below env parent refs. resolves env parent r) \<and>
    c \<in> below env parent refs \<and> (c, c) \<in> (reference_graph env parent)\<^sup>+"
  then have wf: "wf_cluster st" and r: "\<forall>r \<in> below env parent refs. resolves env parent r"
    and c: "c \<in> below env parent refs" and cyc: "(c, c) \<in> (reference_graph env parent)\<^sup>+"
    by simp_all
  from cycle_below_never_returns [OF wf r c cyc]
  show "parseReferences env parent refs st = None" by (simp add: parseReferences_def)
qed

theorem parseReferences_returns_iff_no_cycle_witness:
  "wf (reference_graph treeFetcher test_obj) \<and>
   (\<exists>y. parseReferences treeFetcher test_obj tree_refs test_cluster = Some y) \<and>
   wf_cluster test_cluster \<and>
   below cycleFetcher test_obj cycle_refs \<subseteq> {r. resolves cycleFetcher test_obj r} \<and>
   reference_to ''b'' ''github.com/skarlso/b'' \<in> below cycleFetcher test_obj cycle_refs \<and>
   reference_to ''b'' ''github.com/skarlso/b'' \<notin> set cycle_refs \<and>
   (reference_to ''b'' ''github.com/skarlso/b'', reference_to ''b'' ''github.com/skarlso/b'') \<in>
     (reference_graph cycleFetcher test_obj)\<^sup>+ \<and>
   parseReferences cycleFetcher test_obj cycle_refs test_cluster = None"
proof -
  let ?a = "reference_to ''a'' ''github.com/skarlso/a''"
  let ?b = "reference_to ''b'' ''github.com/skarlso/b''"
  have wc: "wf_cluster test_cluster" by (simp add: wf_cluster_def test_data)
  have r: "\<forall>r \<in> below cycleFetcher test_obj cycle_refs. resolves cycleFetcher test_obj r"
    using cycle_resolves by blast
  have ba: "(?b, ?a) \<in> reference_graph cycleFetcher test_obj"
    unfolding reference_graph_def cycleFetcher_def mock_references_of
    by (simp add: cycle_cv_def reference_to_def component_of_def)
  have bb: "(?b, ?b) \<in> reference_graph cycleFetcher test_obj"
    unfolding reference_graph_def cycleFetcher_def mock_references_of
    by (simp add: cycle_cv_def reference_to_def component_of_def)
  have "?a \<in> set cycle_refs" by (simp add: cycle_refs_def)
  then have m: "?b \<in> below cycleFetcher test_obj cycle_refs"
    using r_into_rtrancl [OF ba] by (rule belowI)
  have nm: "?b \<notin> set cycle_refs" by (simp add: cycle_refs_def reference_to_def)
  from bb have c: "(?b, ?b) \<in> (reference_graph cycleFetcher test_obj)\<^sup>+" by (rule r_into_trancl)
  note t1 = parseReferences_returns_iff_no_cycle
    [of treeFetcher test_obj tree_refs test_cluster ?b]
  note t2 = parseReferences_returns_iff_no_cycle
    [of cycleFetcher test_obj cycle_refs test_cluster ?b]
  from t1 [THEN conjunct1, THEN mp, OF tree_wf]
  have a: "\<exists>y. parseReferences treeFetcher test_obj tree_refs test_cluster = Some y" .
  from t2 [THEN conjunct2, THEN mp, OF conjI [OF wc conjI [OF r conjI [OF m c]]]]
  have b: "parseReferences cycleFetcher test_obj cycle_refs test_cluster = None" .
  from tree_wf a wc cycle_resolves m nm c b show ?thesis by (intro conjI)
qed

end
